theory Spec2Isabelle
  imports Main "HOL-Library.Word" "HOL-Library.Sublist"
begin

section \<open>Python values used by the converter\<close>

text \<open>
  A Python \<open>str\<close> is modelled as a \<open>string\<close>: one \<open>char\<close> stands for one code point,
  so \<open>length\<close> is Python's \<open>len\<close>.  A \<open>bytes\<close> object is a list of 8-bit words.
  Every exception raised inside the converter is an instance of \<open>Exception\<close>; a call that
  may raise returns \<open>exn + 'a\<close>, with \<open>Inl\<close> for the raised exception.
\<close>

type_synonym byte = "8 word"

datatype exn =
    FileNotFoundError
  | OSError
  | PdfReadError
  | PageError
  | UnicodeEncodeError
  | CallbackError

text \<open>\<open>sep.join(parts)\<close>\<close>

fun str_join :: "string \<Rightarrow> string list \<Rightarrow> string" where
  "str_join sep [] = []"
| "str_join sep [x] = x"
| "str_join sep (x # y # ys) = x @ sep @ str_join sep (y # ys)"

text \<open>\<open>str(n)\<close> for a non-negative integer: its decimal digits.\<close>

definition digit_char :: "nat \<Rightarrow> char" where
  "digit_char d = ''0123456789'' ! d"

function str_nat :: "nat \<Rightarrow> string" where
  "str_nat n = (if n < 10 then [digit_char n] else str_nat (n div 10) @ [digit_char (n mod 10)])"
  by pat_completeness auto
termination
  by (relation "measure id") auto

declare str_nat.simps [simp del]

text \<open>\<open>s.lower()\<close>, on the ASCII letters (the only ones that lower-case to \<open>p\<close>, \<open>d\<close>, \<open>f\<close>).\<close>

definition lower_char :: "char \<Rightarrow> char" where
  "lower_char c =
     (case map_of (zip ''ABCDEFGHIJKLMNOPQRSTUVWXYZ'' ''abcdefghijklmnopqrstuvwxyz'') c of
        Some l \<Rightarrow> l
      | None \<Rightarrow> c)"

definition lower :: "string \<Rightarrow> string" where
  "lower s = map lower_char s"

text \<open>\<open>s.endswith(suf)\<close> and \<open>sub in s\<close>\<close>

definition endswith :: "string \<Rightarrow> string \<Rightarrow> bool" where
  "endswith s suf = (length suf \<le> length s \<and> drop (length s - length suf) s = suf)"

fun str_contains :: "string \<Rightarrow> string \<Rightarrow> bool" where
  "str_contains [] sub = (sub = [])"
| "str_contains (c # s) sub = (prefix sub (c # s) \<or> str_contains s sub)"

text \<open>\<open>s.rfind(c)\<close>: the index of the last occurrence of \<open>c\<close>, or \<open>-1\<close>.\<close>

definition rfind :: "string \<Rightarrow> char \<Rightarrow> int" where
  "rfind s c =
     (if c \<in> set s then int (length s) - 1 - int (length (takeWhile (\<lambda>x. x \<noteq> c) (rev s)))
      else - 1)"

section \<open>\<open>os.path\<close> on a POSIX system\<close>

definition basename :: "string \<Rightarrow> string" where
  "basename p = (let i = rfind p CHR ''/'' + 1 in drop (nat i) p)"

text \<open>\<open>head.rstrip('/')\<close>\<close>

definition rstrip_slash :: "string \<Rightarrow> string" where
  "rstrip_slash s = rev (dropWhile (\<lambda>c. c = CHR ''/'') (rev s))"

definition dirname :: "string \<Rightarrow> string" where
  "dirname p =
     (let i = rfind p CHR ''/'' + 1;
          head = take (nat i) p
      in if head \<noteq> [] \<and> head \<noteq> replicate (length head) CHR ''/'' then rstrip_slash head
         else head)"

text \<open>
  \<open>os.path.splitext\<close>: the extension starts at the last dot of the last path component,
  unless only dots precede it there.
\<close>

definition splitext :: "string \<Rightarrow> string \<times> string" where
  "splitext p =
     (let sepIndex = rfind p CHR ''/'';
          dotIndex = rfind p CHR ''.''
      in if dotIndex > sepIndex \<and>
            list_ex (\<lambda>c. c \<noteq> CHR ''.'')
              (take (nat (dotIndex - (sepIndex + 1))) (drop (nat (sepIndex + 1)) p))
         then (take (nat dotIndex) p, drop (nat dotIndex) p)
         else (p, []))"

text \<open>\<open>os.path.join(a, b)\<close>\<close>

definition path_join :: "string \<Rightarrow> string \<Rightarrow> string" where
  "path_join a b =
     (if prefix ''/'' b then b
      else if a = [] \<or> endswith a ''/'' then a @ b
      else a @ ''/'' @ b)"

section \<open>The data model\<close>

text \<open>The dictionaries built by \<open>extract_text_from_pdf\<close> and \<open>create_json_structure\<close>.\<close>

record page_data =
  page_number :: nat
  page_text :: string
  character_count :: nat

record extracted_data =
  pages :: "page_data list"
  full_text :: string
  total_pages :: nat
  total_characters :: nat

record metadata =
  m_name :: string
  m_data_type :: string
  m_timestamp :: string
  m_pdf_file_name :: string
  m_pdf_file_path :: string
  m_pdf_file_size :: nat
  m_pdf_file_hash :: string
  m_pdf_modified_time :: string
  m_total_pages :: nat
  m_total_characters :: nat
  m_pages_with_text :: nat
  m_extraction_timestamp :: string

record content =
  c_full_text :: string
  c_pages :: "page_data list"

record document =
  doc_metadata :: metadata
  doc_content :: content

section \<open>The world outside the converter\<close>

text \<open>
  A regular file: its bytes, its modification time, whether opening it for reading
  raises, and the offset of a byte whose read raises (a failing medium), if any.
\<close>

record os_file =
  contents :: "byte list"
  mtime :: nat
  open_error :: "exn option"
  read_fault :: "nat option"

text \<open>
  What PyPDF2 makes of a file.  \<open>PdfReader(path)\<close> raises or gives a reader; the
  reader's \<open>pages\<close> raise or are a sequence; getting one page and calling
  \<open>extract_text()\<close> on it raises or gives a string.
\<close>

datatype page = PageRaises exn | PageText string

type_synonym pdf_reader = "exn + page list"

text \<open>What is on disk after the converter has opened a file for writing.\<close>

datatype output_file = Json document | Truncated

text \<open>
  The environment of one run: the file system, the libraries and the clock.  The fields
  whose names end in \<open>_error\<close> say which calls raise; a callback is \<open>None\<close> when it is not
  set, and otherwise says whether calling it raises.
\<close>

record env =
  files :: "string \<rightharpoonup> os_file"
  path_exists :: "string \<Rightarrow> bool"
  abspath :: "string \<Rightarrow> string"
  pdf_library :: "os_file \<Rightarrow> exn + pdf_reader"
  sha256_digest :: "byte list \<Rightarrow> byte list"
  isoformat :: "nat \<Rightarrow> string"
  now_iso :: string
  makedirs_error :: "string \<Rightarrow> exn option"
  open_w_error :: "string \<Rightarrow> exn option"
  json_dump_error :: "document \<Rightarrow> exn option"
  progress_callback :: "exn option option"
  status_callback :: "exn option option"

text \<open>
  The attributes of the data source object, with what the run has left on disk
  (\<open>written\<close>, \<open>made_dirs\<close>).
\<close>

record state =
  pdf_file_path :: string
  output_file_path :: string
  include_page_numbers :: bool
  total_items :: nat
  processed_items :: nat
  fetch_completed :: bool
  written :: "string \<rightharpoonup> output_file"
  made_dirs :: "string list"

definition isfile :: "env \<Rightarrow> string \<Rightarrow> bool" where
  "isfile e p = (files e p \<noteq> None)"

text \<open>The progress counters of the base class.\<close>

definition set_total_items :: "nat \<Rightarrow> state \<Rightarrow> state" where
  "set_total_items n s = s\<lparr>total_items := n\<rparr>"

definition increment_processed_items :: "state \<Rightarrow> state" where
  "increment_processed_items s = s\<lparr>processed_items := processed_items s + 1\<rparr>"

definition set_fetch_completed :: "bool \<Rightarrow> state \<Rightarrow> state" where
  "set_fetch_completed b s = s\<lparr>fetch_completed := b\<rparr>"

section \<open>\<open>validate_config\<close>\<close>

definition validate_config :: "env \<Rightarrow> state \<Rightarrow> bool \<times> state" where
  "validate_config e s =
     (if pdf_file_path s = [] then (False, s)
      else if \<not> isfile e (pdf_file_path s) then (False, s)
      else if \<not> endswith (lower (pdf_file_path s)) ''.pdf'' then (False, s)
      else if output_file_path s = [] then
        (let base_name = fst (splitext (basename (pdf_file_path s)));
             output_dir = (if dirname (pdf_file_path s) \<noteq> [] then dirname (pdf_file_path s) else ''.'')
         in (True, s\<lparr>output_file_path := path_join output_dir (base_name @ ''.json'')\<rparr>))
      else (True, s))"

section \<open>\<open>is_valid_pdf\<close>\<close>

definition PdfReader :: "env \<Rightarrow> string \<Rightarrow> exn + pdf_reader" where
  "PdfReader e p =
     (case files e p of
        None \<Rightarrow> Inl FileNotFoundError
      | Some f \<Rightarrow> (case open_error f of Some x \<Rightarrow> Inl x | None \<Rightarrow> pdf_library e f))"

definition is_valid_pdf :: "env \<Rightarrow> string \<Rightarrow> bool" where
  "is_valid_pdf e pdf_path =
     (case files e pdf_path of
        None \<Rightarrow> False
      | Some f \<Rightarrow>
          if length (contents f) = 0 then False
          else (case PdfReader e pdf_path of Inl x \<Rightarrow> False | Inr r \<Rightarrow> True))"

section \<open>\<open>compute_file_hash\<close>\<close>

text \<open>
  An open binary file: the bytes, the position, and the failing offset.  \<open>f.read(n)\<close>
  raises when the bytes it has to deliver include the failing one; otherwise it gives
  the next \<open>n\<close> bytes, fewer at the end of the file, none after it.
\<close>

record handle =
  h_data :: "byte list"
  h_pos :: nat
  h_fault :: "nat option"

definition open_rb :: "env \<Rightarrow> string \<Rightarrow> exn + handle" where
  "open_rb e p =
     (case files e p of
        None \<Rightarrow> Inl FileNotFoundError
      | Some f \<Rightarrow>
          (case open_error f of
             Some x \<Rightarrow> Inl x
           | None \<Rightarrow> Inr \<lparr>h_data = contents f, h_pos = 0, h_fault = read_fault f\<rparr>))"

definition f_read :: "nat \<Rightarrow> handle \<Rightarrow> exn + (byte list \<times> handle)" where
  "f_read n h =
     (let block = take n (drop (h_pos h) (h_data h))
      in case h_fault h of
           None \<Rightarrow> Inr (block, h\<lparr>h_pos := h_pos h + length block\<rparr>)
         | Some k \<Rightarrow>
             if h_pos h \<le> k \<and> k < h_pos h + length block then Inl OSError
             else Inr (block, h\<lparr>h_pos := h_pos h + length block\<rparr>))"

text \<open>
  A \<open>hashlib\<close> object is the sequence of blocks it has been fed; its digest is that of
  their concatenation.  \<open>hexdigest()\<close> writes each digest byte as two lower-case hex digits.
\<close>

type_synonym sha256_hash = "byte list list"

definition sha_update :: "sha256_hash \<Rightarrow> byte list \<Rightarrow> sha256_hash" where
  "sha_update hs block = hs @ [block]"

definition hex_digit :: "nat \<Rightarrow> char" where
  "hex_digit d = ''0123456789abcdef'' ! d"

definition hex_byte :: "byte \<Rightarrow> string" where
  "hex_byte b = [hex_digit (unat b div 16), hex_digit (unat b mod 16)]"

definition hexdigest :: "env \<Rightarrow> sha256_hash \<Rightarrow> string" where
  "hexdigest e hs = concat (map hex_byte (sha256_digest e (concat hs)))"

text \<open>\<open>for byte_block in iter(lambda: f.read(4096), b""): sha256_hash.update(byte_block)\<close>\<close>

function read_blocks :: "handle \<Rightarrow> sha256_hash \<Rightarrow> exn + sha256_hash" where
  "read_blocks h hs =
     (case f_read 4096 h of
        Inl x \<Rightarrow> Inl x
      | Inr (byte_block, h') \<Rightarrow>
          if byte_block = [] then Inr hs else read_blocks h' (sha_update hs byte_block))"
  by pat_completeness auto
termination
  by (relation "measure (\<lambda>(h, hs). length (h_data h) - h_pos h)")
     (auto simp: f_read_def Let_def split: option.splits if_splits)

declare read_blocks.simps [simp del]

definition hash_file :: "env \<Rightarrow> string \<Rightarrow> exn + sha256_hash" where
  "hash_file e file_path =
     (case open_rb e file_path of
        Inl x \<Rightarrow> Inl x
      | Inr f \<Rightarrow> read_blocks f [])"

definition compute_file_hash :: "env \<Rightarrow> string \<Rightarrow> string" where
  "compute_file_hash e file_path =
     (case hash_file e file_path of
        Inl x \<Rightarrow> []
      | Inr sha256_hash \<Rightarrow> hexdigest e sha256_hash)"

section \<open>\<open>extract_text_from_pdf\<close>\<close>

text \<open>
  The body of \<open>for page_num in range(total_pages)\<close>.  The loop variables are the
  \<open>pages\<close> list, \<open>full_text_parts\<close> and the object's progress counter.  A page that raises
  or yields no text leaves them as they are.  The loop only runs for
  \<open>page_num < len(reader.pages)\<close>, so the index is in range.
\<close>

definition extract_page ::
  "page list \<Rightarrow> nat \<Rightarrow> page_data list \<times> string list \<times> state \<Rightarrow> page_data list \<times> string list \<times> state"
where
  "extract_page rpages page_num acc =
     (case acc of (pgs, full_text_parts, s) \<Rightarrow>
        (case rpages ! page_num of
           PageRaises x \<Rightarrow> (pgs, full_text_parts, s)
         | PageText t \<Rightarrow>
             if t \<noteq> [] then
               (pgs @ [\<lparr>page_number = page_num + 1, page_text = t, character_count = length t\<rparr>],
                full_text_parts @ [t],
                increment_processed_items s)
             else (pgs, full_text_parts, s)))"

text \<open>\<open>f"\n--- Page {page_data['page_number']} ---\n"\<close>\<close>

definition page_separator :: "nat \<Rightarrow> string" where
  "page_separator n = ''\<newline>--- Page '' @ str_nat n @ '' ---\<newline>''"

definition format_page :: "page_data \<Rightarrow> string list \<Rightarrow> string list" where
  "format_page pd formatted_parts =
     (formatted_parts @ [page_separator (page_number pd)]) @ [page_text pd]"

definition extract_text_from_pdf :: "env \<Rightarrow> state \<Rightarrow> string \<Rightarrow> (exn + extracted_data) \<times> state" where
  "extract_text_from_pdf e s pdf_path =
     (case PdfReader e pdf_path of
        Inl x \<Rightarrow> (Inl x, s)
      | Inr reader \<Rightarrow>
          (case reader of
             Inl x \<Rightarrow> (Inl x, s)
           | Inr rpages \<Rightarrow>
               (let total_pages = length rpages
                in case fold (extract_page rpages) [0..<total_pages] ([], [], s) of
                     (pgs, full_text_parts, s') \<Rightarrow>
                       (let ft = (if include_page_numbers s'
                                  then str_join ''\<newline>'' (fold format_page pgs [])
                                  else str_join ''\<newline>\<newline>'' full_text_parts)
                        in (Inr \<lparr>pages = pgs, full_text = ft, total_pages = total_pages,
                                 total_characters = length ft\<rparr>, s')))))"

section \<open>\<open>create_json_structure\<close>\<close>

text \<open>\<open>os.stat\<close> raises for a path that is not there.\<close>

definition create_json_structure :: "env \<Rightarrow> string \<Rightarrow> extracted_data \<Rightarrow> exn + document" where
  "create_json_structure e pdf_path ed =
     (case files e pdf_path of
        None \<Rightarrow> Inl FileNotFoundError
      | Some file_stat \<Rightarrow>
          (let file_name = basename pdf_path;
               file_base_name = fst (splitext file_name);
               file_size = length (contents file_stat);
               file_hash = compute_file_hash e pdf_path;
               modified_time = isoformat e (mtime file_stat);
               current_timestamp = now_iso e
           in Inr \<lparr>doc_metadata =
                      \<lparr>m_name = file_base_name,
                       m_data_type = ''from_pdf'',
                       m_timestamp = current_timestamp,
                       m_pdf_file_name = file_name,
                       m_pdf_file_path = abspath e pdf_path,
                       m_pdf_file_size = file_size,
                       m_pdf_file_hash = file_hash,
                       m_pdf_modified_time = modified_time,
                       m_total_pages = total_pages ed,
                       m_total_characters = total_characters ed,
                       m_pages_with_text = length (pages ed),
                       m_extraction_timestamp = current_timestamp\<rparr>,
                    doc_content =
                      \<lparr>c_full_text = full_text ed,
                       c_pages = pages ed\<rparr>\<rparr>))"

section \<open>\<open>fetch\<close>\<close>

text \<open>
  \<open>os.makedirs(output_dir, exist_ok=True)\<close>, and
  \<open>with open(path, 'w') as f: json.dump(doc, f)\<close>: a failing \<open>open\<close> leaves the disk as it
  was, a failing \<open>dump\<close> leaves a partial file.
\<close>

definition makedirs :: "env \<Rightarrow> string \<Rightarrow> state \<Rightarrow> exn option \<times> state" where
  "makedirs e d s =
     (case makedirs_error e d of
        Some x \<Rightarrow> (Some x, s)
      | None \<Rightarrow> (None, s\<lparr>made_dirs := made_dirs s @ [d]\<rparr>))"

definition write_json :: "env \<Rightarrow> string \<Rightarrow> document \<Rightarrow> state \<Rightarrow> exn option \<times> state" where
  "write_json e path d s =
     (case open_w_error e path of
        Some x \<Rightarrow> (Some x, s)
      | None \<Rightarrow>
          (case json_dump_error e d of
             Some x \<Rightarrow> (Some x, s\<lparr>written := (written s)(path \<mapsto> Truncated)\<rparr>)
           | None \<Rightarrow> (None, s\<lparr>written := (written s)(path \<mapsto> Json d)\<rparr>)))"

definition call_callback :: "exn option option \<Rightarrow> exn option" where
  "call_callback cb = (case cb of None \<Rightarrow> None | Some r \<Rightarrow> r)"

text \<open>The body of the \<open>try\<close> block of \<open>fetch\<close>: what it returns or raises, and the state it leaves.\<close>

definition fetch_try :: "env \<Rightarrow> state \<Rightarrow> (exn + document list) \<times> state" where
  "fetch_try e s =
     (case validate_config e s of
        (False, s1) \<Rightarrow> (Inr [], s1)
      | (True, s1) \<Rightarrow>
          if \<not> is_valid_pdf e (pdf_file_path s1) then (Inr [], s1)
          else
            (case PdfReader e (pdf_file_path s1) of
               Inl x \<Rightarrow> (Inl x, s1)
             | Inr reader \<Rightarrow>
                 (case reader of
                    Inl x \<Rightarrow> (Inl x, s1)
                  | Inr rpages \<Rightarrow>
                      (let s2 = set_total_items (length rpages) s1
                       in case extract_text_from_pdf e s2 (pdf_file_path s2) of
                            (Inl x, s3) \<Rightarrow> (Inl x, s3)
                          | (Inr ed, s3) \<Rightarrow>
                              (case create_json_structure e (pdf_file_path s3) ed of
                                 Inl x \<Rightarrow> (Inl x, s3)
                               | Inr json_structure \<Rightarrow>
                                   (let output_dir = dirname (output_file_path s3)
                                    in case (if output_dir \<noteq> [] \<and> \<not> path_exists e output_dir
                                             then makedirs e output_dir s3 else (None, s3)) of
                                         (Some x, s4) \<Rightarrow> (Inl x, s4)
                                       | (None, s4) \<Rightarrow>
                                           (case write_json e (output_file_path s4) json_structure s4 of
                                              (Some x, s5) \<Rightarrow> (Inl x, s5)
                                            | (None, s5) \<Rightarrow>
                                                (let s6 = set_fetch_completed True s5
                                                 in case call_callback (progress_callback e) of
                                                      Some x \<Rightarrow> (Inl x, s6)
                                                    | None \<Rightarrow>
                                                        (case call_callback (status_callback e) of
                                                           Some x \<Rightarrow> (Inl x, s6)
                                                         | None \<Rightarrow> (Inr [json_structure], s6))))))))))"

text \<open>\<open>except Exception as e: return []\<close>\<close>

definition fetch :: "env \<Rightarrow> state \<Rightarrow> (exn + document list) \<times> state" where
  "fetch e s =
     (case fetch_try e s of
        (Inl x, s') \<Rightarrow> (Inr [], s')
      | (Inr result, s') \<Rightarrow> (Inr result, s'))"

section \<open>Closed forms of the iterations\<close>

text \<open>
  What the page loop has collected after the pages \<open>ps\<close>, the first of which has index
  \<open>i\<close>: one entry for each page that gives a non-empty text, numbered from one.
\<close>

fun extracted_pages :: "nat \<Rightarrow> page list \<Rightarrow> page_data list" where
  "extracted_pages i [] = []"
| "extracted_pages i (PageRaises x # ps) = extracted_pages (Suc i) ps"
| "extracted_pages i (PageText t # ps) =
     (if t \<noteq> [] then [\<lparr>page_number = i + 1, page_text = t, character_count = length t\<rparr>] else [])
     @ extracted_pages (Suc i) ps"

definition assemble_full_text :: "bool \<Rightarrow> page_data list \<Rightarrow> string" where
  "assemble_full_text numbered pgs =
     (if numbered
      then str_join ''\<newline>''
             (concat (map (\<lambda>pd. [page_separator (page_number pd), page_text pd]) pgs))
      else str_join ''\<newline>\<newline>'' (map page_text pgs))"

definition extraction :: "bool \<Rightarrow> page list \<Rightarrow> extracted_data" where
  "extraction numbered rpages =
     \<lparr>pages = extracted_pages 0 rpages,
      full_text = assemble_full_text numbered (extracted_pages 0 rpages),
      total_pages = length rpages,
      total_characters = length (assemble_full_text numbered (extracted_pages 0 rpages))\<rparr>"

text \<open>A page that gives a non-empty text.\<close>

definition yields_text :: "page \<Rightarrow> bool" where
  "yields_text pg = (case pg of PageRaises x \<Rightarrow> False | PageText t \<Rightarrow> t \<noteq> [])"

definition text_of :: "page \<Rightarrow> string" where
  "text_of pg = (case pg of PageRaises x \<Rightarrow> [] | PageText t \<Rightarrow> t)"

text \<open>The separator line of page \<open>n\<close>, without the newlines around it.\<close>

definition separator_line :: "nat \<Rightarrow> string" where
  "separator_line n = ''--- Page '' @ str_nat n @ '' ---''"

text \<open>The lines of a string: \<open>s.split('\n')\<close>.\<close>

fun split_lines :: "string \<Rightarrow> string list" where
  "split_lines [] = [ [] ]"
| "split_lines (c # cs) =
     (if c = CHR 0x0A then [] # split_lines cs
      else (case split_lines cs of [] \<Rightarrow> [ [c] ] | l # ls \<Rightarrow> (c # l) # ls))"

text \<open>
  The numbered text as the specification words it: for every extracted page a block made
  of the separator line \<open>--- Page n ---\<close> followed by the page's text, the blocks joined
  by newlines.
\<close>

definition spec_numbered_text :: "page_data list \<Rightarrow> string" where
  "spec_numbered_text pgs =
     str_join ''\<newline>''
       (map (\<lambda>pd. separator_line (page_number pd) @ ''\<newline>'' @ page_text pd) pgs)"

text \<open>A byte sequence cut into blocks of \<open>n\<close> bytes, the last one possibly shorter.\<close>

function chunks :: "nat \<Rightarrow> 'a list \<Rightarrow> 'a list list" where
  "chunks n xs = (if xs = [] \<or> n = 0 then [] else take n xs # chunks n (drop n xs))"
  by pat_completeness auto
termination
  by (relation "measure (\<lambda>(n, xs). length xs)") auto

declare chunks.simps [simp del]

text \<open>No read from the current position on will meet the failing byte.\<close>

definition no_fault :: "handle \<Rightarrow> bool" where
  "no_fault h = (case h_fault h of None \<Rightarrow> True | Some k \<Rightarrow> k < h_pos h \<or> length (h_data h) \<le> k)"

definition is_lower_hex :: "string \<Rightarrow> bool" where
  "is_lower_hex s = list_all (\<lambda>c. c \<in> set ''0123456789abcdef'') s"

section \<open>A concrete run\<close>

text \<open>
  A small world to run the converter in: one readable three-byte file
  \<open>/docs/a.pdf\<close>, which the PDF library parses into the pages \<open>rpages\<close>; every write
  succeeds and no callback is set.
\<close>

definition example_file :: os_file where
  "example_file = \<lparr>contents = [0x25, 0x50, 0x44], mtime = 0, open_error = None, read_fault = None\<rparr>"

definition example_env :: "page list \<Rightarrow> env" where
  "example_env rpages =
     \<lparr>files = [''/docs/a.pdf'' \<mapsto> example_file],
      path_exists = (\<lambda>p. True),
      abspath = (\<lambda>p. p),
      pdf_library = (\<lambda>f. Inr (Inr rpages)),
      sha256_digest = (\<lambda>bs. [0xAB, of_nat (length bs)]),
      isoformat = (\<lambda>t. ''1970-01-01T00:00:00''),
      now_iso = ''2024-05-01T12:00:00'',
      makedirs_error = (\<lambda>p. None),
      open_w_error = (\<lambda>p. None),
      json_dump_error = (\<lambda>d. None),
      progress_callback = None,
      status_callback = None\<rparr>"

definition example_state :: "string \<Rightarrow> bool \<Rightarrow> state" where
  "example_state path numbered =
     \<lparr>pdf_file_path = path,
      output_file_path = [],
      include_page_numbers = numbered,
      total_items = 0,
      processed_items = 0,
      fetch_completed = False,
      written = Map.empty,
      made_dirs = []\<rparr>"

text \<open>The texts and the page numbers of the documents that a run returns.\<close>

definition fetched_texts :: "env \<Rightarrow> state \<Rightarrow> string list" where
  "fetched_texts e s =
     (case fst (fetch e s) of
        Inl x \<Rightarrow> []
      | Inr docs \<Rightarrow> map (\<lambda>d. c_full_text (doc_content d)) docs)"

definition fetched_page_numbers :: "env \<Rightarrow> state \<Rightarrow> nat list list" where
  "fetched_page_numbers e s =
     (case fst (fetch e s) of
        Inl x \<Rightarrow> []
      | Inr docs \<Rightarrow> map (\<lambda>d. map page_number (c_pages (doc_content d))) docs)"

text \<open>The hashes of the documents that a run returns.\<close>

definition fetched_hashes :: "env \<Rightarrow> state \<Rightarrow> string list" where
  "fetched_hashes e s =
     (case fst (fetch e s) of
        Inl x \<Rightarrow> []
      | Inr docs \<Rightarrow> map (\<lambda>d. m_pdf_file_hash (doc_metadata d)) docs)"

text \<open>Reading the whole file never meets a failing byte.\<close>

definition read_succeeds :: "os_file \<Rightarrow> bool" where
  "read_succeeds f = (case read_fault f of None \<Rightarrow> True | Some k \<Rightarrow> length (contents f) \<le> k)"

text \<open>
  The same world with a failing medium: the file has the same bytes, the PDF library
  still parses it into \<open>rpages\<close>, but a sequential read of its first byte raises.
\<close>

definition faulty_file :: os_file where
  "faulty_file = example_file\<lparr>read_fault := Some 0\<rparr>"

definition faulty_env :: "page list \<Rightarrow> env" where
  "faulty_env rpages = (example_env rpages)\<lparr>files := [''/docs/a.pdf'' \<mapsto> faulty_file]\<rparr>"

section \<open>The page loop and the assembled text\<close>

lemma extracted_pages_append:
  "extracted_pages i (xs @ ys) = extracted_pages i xs @ extracted_pages (i + length xs) ys"
  by (induction i xs rule: extracted_pages.induct) simp_all

lemma fold_extract_page:
  "n \<le> length rpages \<Longrightarrow>
   fold (extract_page rpages) [0..<n] (pgs, parts, s) =
     (pgs @ extracted_pages 0 (take n rpages),
      parts @ map page_text (extracted_pages 0 (take n rpages)),
      s\<lparr>processed_items := processed_items s + length (extracted_pages 0 (take n rpages))\<rparr>)"
proof (induction n)
  case 0
  then show ?case by simp
next
  case (Suc n)
  then have lt: "n < length rpages" by simp
  have tk: "take (Suc n) rpages = take n rpages @ [rpages ! n]"
    using lt by (simp add: take_Suc_conv_app_nth)
  have len: "length (take n rpages) = n" using lt by simp
  show ?case
    using Suc.IH lt
    by (cases "rpages ! n")
       (simp_all add: tk extracted_pages_append len extract_page_def increment_processed_items_def)
qed

lemma fold_format_page:
  "fold format_page pgs acc = acc @ concat (map (\<lambda>pd. [page_separator (page_number pd), page_text pd]) pgs)"
  by (induction pgs arbitrary: acc) (simp_all add: format_page_def)

lemma extract_text_from_pdf_ok:
  assumes "PdfReader e p = Inr (Inr rpages)"
  shows "extract_text_from_pdf e s p =
           (Inr (extraction (include_page_numbers s) rpages),
            s\<lparr>processed_items := processed_items s + length (extracted_pages 0 rpages)\<rparr>)"
  using assms
  by (simp add: extract_text_from_pdf_def fold_extract_page fold_format_page extraction_def
        assemble_full_text_def Let_def)

section \<open>The runs of \<open>fetch\<close> that return a document\<close>

lemma validate_config_keeps:
  assumes "validate_config e s = (b, s1)"
  shows "pdf_file_path s1 = pdf_file_path s \<and> include_page_numbers s1 = include_page_numbers s
         \<and> written s1 = written s \<and> made_dirs s1 = made_dirs s"
  using assms by (auto simp: validate_config_def Let_def split: if_splits)

lemma validate_config_False:
  "validate_config e s = (False, s1) \<Longrightarrow> s1 = s"
  by (auto simp: validate_config_def Let_def split: if_splits)

lemma makedirs_written:
  "makedirs e d s = (r, s') \<Longrightarrow> written s' = written s \<and> output_file_path s' = output_file_path s"
  by (auto simp: makedirs_def split: option.splits)

lemma fetch_try_document:
  assumes "fetch_try e s = (Inr docs, s')" and "docs \<noteq> []"
  shows "\<exists>s1 rpages d.
           validate_config e s = (True, s1) \<and> is_valid_pdf e (pdf_file_path s) \<and>
           PdfReader e (pdf_file_path s) = Inr (Inr rpages) \<and>
           create_json_structure e (pdf_file_path s)
             (extraction (include_page_numbers s) rpages) = Inr d \<and>
           docs = [d] \<and> written s' (output_file_path s1) = Some (Json d)"
proof -
  obtain b s1 where v: "validate_config e s = (b, s1)" by (cases "validate_config e s")
  note k = validate_config_keeps [OF v]
  from assms v have b: "b" and valid: "is_valid_pdf e (pdf_file_path s1)"
    by (auto simp: fetch_try_def split: if_splits bool.splits)
  from assms v b valid obtain rpages where r: "PdfReader e (pdf_file_path s1) = Inr (Inr rpages)"
    by (auto simp: fetch_try_def split: if_splits sum.splits)
  define s2 where "s2 = set_total_items (length rpages) s1"
  have p2: "pdf_file_path s2 = pdf_file_path s1" "include_page_numbers s2 = include_page_numbers s1"
    "output_file_path s2 = output_file_path s1"
    by (simp_all add: s2_def set_total_items_def)
  define s3 where "s3 = s2\<lparr>processed_items := processed_items s2 + length (extracted_pages 0 rpages)\<rparr>"
  define ed where "ed = extraction (include_page_numbers s) rpages"
  have ex: "extract_text_from_pdf e s2 (pdf_file_path s2) = (Inr ed, s3)"
    using extract_text_from_pdf_ok [of e "pdf_file_path s2" rpages s2] r p2 k
    by (simp add: s3_def ed_def)
  have p3: "pdf_file_path s3 = pdf_file_path s1" "output_file_path s3 = output_file_path s1"
    using p2 by (simp_all add: s3_def)
  from assms v b valid r ex obtain d where d: "create_json_structure e (pdf_file_path s1) ed = Inr d"
    by (auto simp: fetch_try_def Let_def s2_def [symmetric] p3 split: sum.splits)
  define md where "md = (if dirname (output_file_path s1) \<noteq> [] \<and> \<not> path_exists e (dirname (output_file_path s1))
                          then makedirs e (dirname (output_file_path s1)) s3 else (None, s3))"
  obtain mr s4 where m: "md = (mr, s4)" by (cases md)
  have p4: "output_file_path s4 = output_file_path s1"
    using m makedirs_written [of e "dirname (output_file_path s1)" s3 mr s4] p3
    by (auto simp: md_def split: if_splits)
  have rest: "(case md of (Some x, s4) \<Rightarrow> (Inl x, s4)
              | (None, s4) \<Rightarrow>
                 (case write_json e (output_file_path s4) d s4 of
                    (Some x, s5) \<Rightarrow> (Inl x, s5)
                  | (None, s5) \<Rightarrow>
                      (let s6 = set_fetch_completed True s5
                       in case call_callback (progress_callback e) of
                            Some x \<Rightarrow> (Inl x, s6)
                          | None \<Rightarrow>
                              (case call_callback (status_callback e) of
                                 Some x \<Rightarrow> (Inl x, s6)
                               | None \<Rightarrow> (Inr [d], s6))))) = (Inr docs, s')"
    using assms(1) v b valid r ex d
    by (simp add: fetch_try_def Let_def s2_def [symmetric] p3 md_def)
  from rest m have mr: "mr = None" by (cases mr) auto
  obtain wr s5 where w: "write_json e (output_file_path s4) d s4 = (wr, s5)"
    by (cases "write_json e (output_file_path s4) d s4")
  from rest m mr w have wr: "wr = None" by (cases wr) auto
  from w wr have s5: "written s5 (output_file_path s4) = Some (Json d)"
    by (auto simp: write_json_def split: option.splits)
  from rest m mr w wr have fin: "docs = [d]" "s' = set_fetch_completed True s5"
    by (auto simp: Let_def split: option.splits)
  have "written s' (output_file_path s1) = Some (Json d)"
    using fin s5 p4 by (simp add: set_fetch_completed_def)
  moreover have "create_json_structure e (pdf_file_path s) (extraction (include_page_numbers s) rpages) = Inr d"
    using d k by (simp add: ed_def)
  ultimately show ?thesis using v b valid r k fin by auto
qed

lemma fetch_try_success:
  assumes v: "validate_config e s = (True, s1)"
    and f: "files e (pdf_file_path s) = Some f" "contents f \<noteq> []"
    and r: "PdfReader e (pdf_file_path s) = Inr (Inr rpages)"
    and d: "create_json_structure e (pdf_file_path s)
              (extraction (include_page_numbers s) rpages) = Inr d"
    and mk: "dirname (output_file_path s1) = [] \<or> path_exists e (dirname (output_file_path s1))
             \<or> makedirs_error e (dirname (output_file_path s1)) = None"
    and w: "open_w_error e (output_file_path s1) = None" "json_dump_error e d = None"
    and cb: "call_callback (progress_callback e) = None" "call_callback (status_callback e) = None"
  shows "fst (fetch_try e s) = Inr [d]"
proof -
  note k = validate_config_keeps [OF v]
  have valid: "is_valid_pdf e (pdf_file_path s1)"
    using f r k by (simp add: is_valid_pdf_def)
  define s2 where "s2 = set_total_items (length rpages) s1"
  have p2: "pdf_file_path s2 = pdf_file_path s" "include_page_numbers s2 = include_page_numbers s"
    "output_file_path s2 = output_file_path s1"
    using k by (simp_all add: s2_def set_total_items_def)
  define s3 where "s3 = s2\<lparr>processed_items := processed_items s2 + length (extracted_pages 0 rpages)\<rparr>"
  have ex: "extract_text_from_pdf e s2 (pdf_file_path s2) =
              (Inr (extraction (include_page_numbers s) rpages), s3)"
    using extract_text_from_pdf_ok [of e "pdf_file_path s2" rpages s2] r p2
    by (simp add: s3_def)
  have p3: "pdf_file_path s3 = pdf_file_path s" "output_file_path s3 = output_file_path s1"
    using p2 by (simp_all add: s3_def)
  define md where "md = (if dirname (output_file_path s1) \<noteq> [] \<and> \<not> path_exists e (dirname (output_file_path s1))
                          then makedirs e (dirname (output_file_path s1)) s3 else (None, s3))"
  have "\<exists>s4. md = (None, s4) \<and> output_file_path s4 = output_file_path s1"
  proof (cases "dirname (output_file_path s1) \<noteq> [] \<and> \<not> path_exists e (dirname (output_file_path s1))")
    case True
    with mk p3 show ?thesis by (simp add: md_def makedirs_def)
  next
    case False
    with p3 show ?thesis by (auto simp: md_def)
  qed
  then obtain s4 where m: "md = (None, s4)" "output_file_path s4 = output_file_path s1"
    by blast
  obtain s5 where w5: "write_json e (output_file_path s4) d s4 = (None, s5)"
    using w m by (simp add: write_json_def)
  show ?thesis
    using v valid r k ex d p3 m w5 cb
    by (simp add: fetch_try_def Let_def s2_def [symmetric] md_def [symmetric])
qed

lemma fetch_fst:
  "fst (fetch e s) = (case fst (fetch_try e s) of Inl x \<Rightarrow> Inr [] | Inr r \<Rightarrow> Inr r)"
  by (cases "fetch_try e s") (auto simp: fetch_def split: sum.splits)

lemma ex_validate:
  "validate_config (example_env rpages) (example_state ''/docs/a.pdf'' b) =
     (True, (example_state ''/docs/a.pdf'' b)\<lparr>output_file_path := ''/docs/a.json''\<rparr>)"
  by (simp add: validate_config_def example_env_def example_state_def isfile_def lower_def lower_char_def
      endswith_def splitext_def basename_def dirname_def rfind_def path_join_def rstrip_slash_def Let_def)

section \<open>The extracted pages\<close>

lemma page_separator_line: "page_separator n = ''\<newline>'' @ separator_line n @ ''\<newline>''"
  by (simp add: page_separator_def separator_line_def)

lemma extracted_pages_count:
  "\<forall>pd \<in> set (extracted_pages i ps). character_count pd = length (page_text pd) \<and> page_text pd \<noteq> []
      \<and> i < page_number pd \<and> page_number pd \<le> i + length ps"
  by (induction i ps rule: extracted_pages.induct) auto

lemma extracted_pages_sorted:
  "sorted_wrt (<) (map page_number (extracted_pages i ps))"
proof (induction i ps rule: extracted_pages.induct)
  case (3 i t ps)
  have "\<forall>pd \<in> set (extracted_pages (Suc i) ps). i + 1 < page_number pd"
    using extracted_pages_count [of "Suc i" ps] by auto
  with 3 show ?case by (auto simp: sorted_wrt_append)
qed simp_all

lemma extracted_pages_all:
  "\<forall>pg \<in> set ps. yields_text pg \<Longrightarrow>
   map page_number (extracted_pages i ps) = [Suc i..<Suc (i + length ps)] \<and>
   map page_text (extracted_pages i ps) = map text_of ps"
proof (induction i ps rule: extracted_pages.induct)
  case (3 i t ps)
  have "[Suc i..<Suc (i + length (PageText t # ps))] = Suc i # [Suc (Suc i)..<Suc (Suc i + length ps)]"
    by (simp add: upt_conv_Cons del: upt_Suc)
  with 3 show ?case by (simp add: yields_text_def text_of_def del: upt_Suc)
qed (simp_all add: yields_text_def)

lemma extracted_pages_none:
  "\<forall>pg \<in> set ps. \<not> yields_text pg \<Longrightarrow> extracted_pages i ps = []"
  by (induction i ps rule: extracted_pages.induct) (simp_all add: yields_text_def)

section \<open>The assembled document\<close>

lemma create_json_structure_fields:
  assumes "create_json_structure e p ed = Inr d"
  shows "m_total_pages (doc_metadata d) = total_pages ed"
    and "m_total_characters (doc_metadata d) = total_characters ed"
    and "m_pages_with_text (doc_metadata d) = length (pages ed)"
    and "c_full_text (doc_content d) = full_text ed"
    and "c_pages (doc_content d) = pages ed"
    and "m_data_type (doc_metadata d) = ''from_pdf''"
    and "m_timestamp (doc_metadata d) = m_extraction_timestamp (doc_metadata d)"
    and "m_pdf_file_hash (doc_metadata d) = compute_file_hash e p"
  using assms by (auto simp: create_json_structure_def Let_def split: option.splits)

lemma create_json_structure_Some:
  "files e p = Some f \<Longrightarrow> \<exists>d. create_json_structure e p ed = Inr d"
  by (simp add: create_json_structure_def Let_def)

lemma fetch_document:
  assumes "fst (fetch e s) = Inr docs" and "d \<in> set docs"
  shows "\<exists>s1 rpages.
           validate_config e s = (True, s1) \<and> is_valid_pdf e (pdf_file_path s) \<and>
           PdfReader e (pdf_file_path s) = Inr (Inr rpages) \<and>
           create_json_structure e (pdf_file_path s)
             (extraction (include_page_numbers s) rpages) = Inr d \<and>
           docs = [d] \<and> written (snd (fetch e s)) (output_file_path s1) = Some (Json d)"
proof -
  obtain r s' where t: "fetch_try e s = (r, s')" by (cases "fetch_try e s")
  from assms t have r: "r = Inr docs" and ne: "docs \<noteq> []" and s': "snd (fetch e s) = s'"
    by (auto simp: fetch_def split: sum.splits)
  from fetch_try_document [OF t [unfolded r] ne] s' assms(2) show ?thesis by auto
qed

lemma example_fetch_ok:
  "\<exists>d. fst (fetch (example_env rpages) (example_state ''/docs/a.pdf'' b)) = Inr [d]"
proof -
  let ?e = "example_env rpages" and ?s = "example_state ''/docs/a.pdf'' b"
  have p: "pdf_file_path ?s = ''/docs/a.pdf''" "include_page_numbers ?s = b"
    by (simp_all add: example_state_def)
  have f: "files ?e ''/docs/a.pdf'' = Some example_file" by (simp add: example_env_def)
  have c: "contents example_file \<noteq> []" by (simp add: example_file_def)
  have r: "PdfReader ?e ''/docs/a.pdf'' = Inr (Inr rpages)"
    by (simp add: PdfReader_def example_env_def example_file_def)
  obtain d where d: "create_json_structure ?e ''/docs/a.pdf'' (extraction b rpages) = Inr d"
    using create_json_structure_Some [OF f] by blast
  have io: "path_exists ?e (dirname ''/docs/a.json'')" "open_w_error ?e ''/docs/a.json'' = None"
    "json_dump_error ?e d = None" "call_callback (progress_callback ?e) = None"
    "call_callback (status_callback ?e) = None"
    by (simp_all add: example_env_def call_callback_def)
  have "fst (fetch_try ?e ?s) = Inr [d]"
    using f c r d io
    by (intro fetch_try_success [OF ex_validate, where f = example_file and rpages = rpages])
       (simp_all add: p)
  then show ?thesis by (auto simp: fetch_fst)
qed

section \<open>Page counts and page numbers\<close>

text \<open>
  Claim C1.  When the PDF library reads \<open>N\<close> pages from the file and every page gives a
  non-empty text, a document returned by \<open>fetch\<close> has \<open>total_pages = N\<close> and
  \<open>pages_with_text = N\<close>, and its \<open>pages\<close> are \<open>N\<close> entries whose page numbers are
  \<open>1, 2, ..., N\<close> in this order.
\<close>

theorem fetch_all_pages:
  assumes "fst (fetch e s) = Inr docs" and "d \<in> set docs"
    and "PdfReader e (pdf_file_path s) = Inr (Inr rpages)"
    and "\<forall>pg \<in> set rpages. yields_text pg"
  shows "m_total_pages (doc_metadata d) = length rpages \<and>
         m_pages_with_text (doc_metadata d) = length rpages \<and>
         length (c_pages (doc_content d)) = length rpages \<and>
         map page_number (c_pages (doc_content d)) = [1..<Suc (length rpages)]"
proof -
  from fetch_document [OF assms(1,2)] assms(3)
  have d: "create_json_structure e (pdf_file_path s)
             (extraction (include_page_numbers s) rpages) = Inr d"
    by auto
  have n: "map page_number (extracted_pages 0 rpages) = [1..<Suc (length rpages)]"
    using extracted_pages_all [OF assms(4), of 0] by simp
  then have l: "length (extracted_pages 0 rpages) = length rpages"
    by (metis length_map length_upt diff_Suc_1 One_nat_def)
  show ?thesis
    using create_json_structure_fields [OF d] n l by (simp add: extraction_def)
qed

theorem fetch_all_pages_witness:
  "\<exists>d. fst (fetch (example_env [PageText ''Hello'', PageText ''World''])
               (example_state ''/docs/a.pdf'' True)) = Inr [d] \<and>
       m_total_pages (doc_metadata d) = 2 \<and>
       m_pages_with_text (doc_metadata d) = 2 \<and>
       length (c_pages (doc_content d)) = 2 \<and>
       map page_number (c_pages (doc_content d)) = [1, 2]"
proof -
  let ?ps = "[PageText ''Hello'', PageText ''World'']"
  let ?e = "example_env ?ps" and ?s = "example_state ''/docs/a.pdf'' True"
  obtain d where d: "fst (fetch ?e ?s) = Inr [d]" using example_fetch_ok by blast
  have r: "PdfReader ?e (pdf_file_path ?s) = Inr (Inr ?ps)"
    by (simp add: PdfReader_def example_env_def example_file_def example_state_def)
  have y: "\<forall>pg \<in> set ?ps. yields_text pg" by (simp add: yields_text_def)
  have "[1..<Suc (length ?ps)] = [1, 2]" by (simp add: upt_rec)
  with fetch_all_pages [OF d _ r y, of d] d show ?thesis by auto
qed

section \<open>Lines of the numbered text\<close>

lemma split_lines_nonempty: "split_lines s \<noteq> []"
  by (induction s) (auto split: list.splits)

lemma split_lines_append_nl:
  "split_lines (x @ CHR 0x0A # y) = split_lines x @ split_lines y"
proof (induction x)
  case Nil
  then show ?case by simp
next
  case (Cons c x)
  then show ?case
    using split_lines_nonempty [of x] by (cases "split_lines x") auto
qed

lemma split_lines_no_nl: "CHR 0x0A \<notin> set s \<Longrightarrow> split_lines s = [s]"
  by (induction s) auto

lemma digit_char_not_nl: "d < 10 \<Longrightarrow> digit_char d \<noteq> CHR 0x0A"
proof -
  assume "d < 10"
  then have "digit_char d \<in> set ''0123456789''"
    unfolding digit_char_def by (intro nth_mem) simp
  then show ?thesis by auto
qed

lemma str_nat_no_nl: "CHR 0x0A \<notin> set (str_nat n)"
proof (induction n rule: str_nat.induct)
  case (1 n)
  show ?case
  proof (cases "n < 10")
    case True
    then show ?thesis using digit_char_not_nl [of n] by (subst str_nat.simps) simp
  next
    case False
    have "n mod 10 < 10" by simp
    then have "digit_char (n mod 10) \<noteq> CHR 0x0A" by (rule digit_char_not_nl)
    with False 1 show ?thesis by (subst str_nat.simps) simp
  qed
qed

lemma separator_line_no_nl: "CHR 0x0A \<notin> set (separator_line n)"
  using str_nat_no_nl [of n] by (simp add: separator_line_def)

lemma split_lines_page_separator:
  "split_lines (page_separator n) = [ [], separator_line n, [] ]"
proof -
  have "split_lines (separator_line n @ CHR 0x0A # []) = [separator_line n, [] ]"
    using split_lines_no_nl [OF separator_line_no_nl, of n]
    by (simp only: split_lines_append_nl split_lines.simps(1) append.simps)
  then show ?thesis
    by (simp add: page_separator_line)
qed

lemma split_lines_parts:
  "concat (map split_lines (concat (map (\<lambda>pd. [page_separator (page_number pd), page_text pd]) pgs))) =
   concat (map (\<lambda>pd. [ [], separator_line (page_number pd), [] ] @ split_lines (page_text pd)) pgs)"
  by (induction pgs) (simp_all add: split_lines_page_separator)

lemma split_lines_join:
  "parts \<noteq> [] \<Longrightarrow> split_lines (str_join ''\<newline>'' parts) = concat (map split_lines parts)"
proof (induction "''\<newline>''" parts rule: str_join.induct)
  case (3 x y ys)
  then show ?case by (simp add: split_lines_append_nl del: split_lines.simps(2))
qed simp_all

section \<open>The assembled text\<close>

text \<open>
  Claim C2 describes the numbered text as blocks, each a separator line
  \<open>--- Page n ---\<close> followed by the page's text, joined by newlines.  The text that
  the code assembles is not that string: for the two pages \<open>Hello\<close> and \<open>World\<close> it
  starts with a newline and has an empty line on both sides of every separator line.
\<close>

theorem full_text_assembly_counterexample:
  "fst (extract_text_from_pdf (example_env [PageText ''Hello'', PageText ''World''])
          (example_state ''/docs/a.pdf'' True) ''/docs/a.pdf'') =
     Inr \<lparr>pages = [\<lparr>page_number = 1, page_text = ''Hello'', character_count = 5\<rparr>,
                   \<lparr>page_number = 2, page_text = ''World'', character_count = 5\<rparr>],
          full_text = ''\<newline>--- Page 1 ---\<newline>\<newline>Hello\<newline>\<newline>--- Page 2 ---\<newline>\<newline>World'',
          total_pages = 2,
          total_characters = 45\<rparr> \<and>
   spec_numbered_text [\<lparr>page_number = 1, page_text = ''Hello'', character_count = 5\<rparr>,
                       \<lparr>page_number = 2, page_text = ''World'', character_count = 5\<rparr>] =
     ''--- Page 1 ---\<newline>Hello\<newline>--- Page 2 ---\<newline>World'' \<and>
   ''\<newline>--- Page 1 ---\<newline>\<newline>Hello\<newline>\<newline>--- Page 2 ---\<newline>\<newline>World'' \<noteq>
     ''--- Page 1 ---\<newline>Hello\<newline>--- Page 2 ---\<newline>World''"
proof -
  have r: "PdfReader (example_env [PageText ''Hello'', PageText ''World'']) ''/docs/a.pdf''
             = Inr (Inr [PageText ''Hello'', PageText ''World''])"
    by (simp add: PdfReader_def example_env_def example_file_def)
  have sep: "str_nat (Suc 0) = ''1''" "str_nat (Suc (Suc 0)) = ''2''" "str_nat 1 = ''1''"
    "str_nat 2 = ''2''"
    by (simp_all add: str_nat.simps digit_char_def)
  have a: "fst (extract_text_from_pdf (example_env [PageText ''Hello'', PageText ''World''])
          (example_state ''/docs/a.pdf'' True) ''/docs/a.pdf'') =
     Inr \<lparr>pages = [\<lparr>page_number = 1, page_text = ''Hello'', character_count = 5\<rparr>,
                   \<lparr>page_number = 2, page_text = ''World'', character_count = 5\<rparr>],
          full_text = ''\<newline>--- Page 1 ---\<newline>\<newline>Hello\<newline>\<newline>--- Page 2 ---\<newline>\<newline>World'',
          total_pages = 2,
          total_characters = 45\<rparr>"
    by (simp add: extract_text_from_pdf_ok [OF r] extraction_def assemble_full_text_def
        page_separator_def sep example_state_def)
  have b: "spec_numbered_text [\<lparr>page_number = 1, page_text = ''Hello'', character_count = 5\<rparr>,
                       \<lparr>page_number = 2, page_text = ''World'', character_count = 5\<rparr>] =
     ''--- Page 1 ---\<newline>Hello\<newline>--- Page 2 ---\<newline>World''"
    by (simp add: spec_numbered_text_def separator_line_def sep)
  from a b show ?thesis by simp
qed

text \<open>
  Claim C2, amended.  Whenever the PDF can be read, \<open>extract_text_from_pdf\<close> returns a
  result whose \<open>pages\<close> are the successfully extracted pages in order.  With
  \<open>include_page_numbers\<close> set, every such page contributes two parts, its separator,
  which is the line \<open>--- Page n ---\<close> with a newline before and a newline after it, and
  its text, and \<open>full_text\<close> is all these parts joined by single newlines; read line by
  line, \<open>full_text\<close> is then, for each page in order, an empty line, the separator line, an
  empty line and the lines of the page's text.  Without \<open>include_page_numbers\<close>,
  \<open>full_text\<close> is the page texts joined by two newlines.  In both cases
  \<open>total_characters\<close> is the length of \<open>full_text\<close>.
\<close>

theorem full_text_assembly:
  assumes "PdfReader e p = Inr (Inr rpages)"
  shows "\<exists>ed s'. extract_text_from_pdf e s p = (Inr ed, s') \<and>
           pages ed = extracted_pages 0 rpages \<and>
           (include_page_numbers s \<longrightarrow>
              full_text ed =
                str_join ''\<newline>''
                  (concat (map (\<lambda>pd. [''\<newline>'' @ separator_line (page_number pd) @ ''\<newline>'',
                                       page_text pd]) (pages ed))) \<and>
              (pages ed \<noteq> [] \<longrightarrow>
                 split_lines (full_text ed) =
                   concat (map (\<lambda>pd. [ [], separator_line (page_number pd), [] ]
                                      @ split_lines (page_text pd)) (pages ed)))) \<and>
           (\<not> include_page_numbers s \<longrightarrow>
              full_text ed = str_join ''\<newline>\<newline>'' (map page_text (pages ed))) \<and>
           total_characters ed = length (full_text ed)"
proof -
  let ?pgs = "extracted_pages 0 rpages"
  let ?parts = "concat (map (\<lambda>pd. [page_separator (page_number pd), page_text pd]) ?pgs)"
  have lines: "split_lines (str_join ''\<newline>'' ?parts) =
          concat (map (\<lambda>pd. [ [], separator_line (page_number pd), [] ] @ split_lines (page_text pd)) ?pgs)"
    if "?pgs \<noteq> []"
  proof -
    from that have "?parts \<noteq> []" by (cases ?pgs) auto
    then have "split_lines (str_join ''\<newline>'' ?parts) = concat (map split_lines ?parts)"
      by (rule split_lines_join)
    also have "\<dots> = concat (map (\<lambda>pd. [ [], separator_line (page_number pd), [] ] @ split_lines (page_text pd)) ?pgs)"
      by (rule split_lines_parts)
    finally show ?thesis .
  qed
  show ?thesis
    using lines
    by (simp add: extract_text_from_pdf_ok [OF assms] extraction_def assemble_full_text_def
        page_separator_line)
qed

theorem full_text_assembly_witness:
  "PdfReader (example_env [PageText ''Hello'', PageText ''World'']) ''/docs/a.pdf''
     = Inr (Inr [PageText ''Hello'', PageText ''World'']) \<and>
   (\<exists>ed s'. extract_text_from_pdf (example_env [PageText ''Hello'', PageText ''World''])
                (example_state ''/docs/a.pdf'' True) ''/docs/a.pdf'' = (Inr ed, s') \<and>
      full_text ed = ''\<newline>--- Page 1 ---\<newline>\<newline>Hello\<newline>\<newline>--- Page 2 ---\<newline>\<newline>World'' \<and>
      split_lines (full_text ed) = ['''', ''--- Page 1 ---'', '''', ''Hello'', '''', ''--- Page 2 ---'', '''', ''World''] \<and>
      total_characters ed = 45) \<and>
   (\<exists>ed s'. extract_text_from_pdf (example_env [PageText ''Hello'', PageText ''World''])
                (example_state ''/docs/a.pdf'' False) ''/docs/a.pdf'' = (Inr ed, s') \<and>
      full_text ed = ''Hello\<newline>\<newline>World'' \<and>
      total_characters ed = 12)"
proof -
  let ?ps = "[PageText ''Hello'', PageText ''World'']"
  let ?e = "example_env ?ps"
  have r: "PdfReader ?e ''/docs/a.pdf'' = Inr (Inr ?ps)"
    by (simp add: PdfReader_def example_env_def example_file_def)
  have sep: "separator_line (Suc 0) = ''--- Page 1 ---''"
    "separator_line (Suc (Suc 0)) = ''--- Page 2 ---''"
    by (simp_all add: separator_line_def digit_char_def str_nat.simps)
  have t: "include_page_numbers (example_state ''/docs/a.pdf'' True)"
    and f: "\<not> include_page_numbers (example_state ''/docs/a.pdf'' False)"
    by (simp_all add: example_state_def)
  from full_text_assembly [OF r, of "example_state ''/docs/a.pdf'' True"] t
  have a: "\<exists>ed s'. extract_text_from_pdf ?e (example_state ''/docs/a.pdf'' True) ''/docs/a.pdf'' = (Inr ed, s') \<and>
      full_text ed = ''\<newline>--- Page 1 ---\<newline>\<newline>Hello\<newline>\<newline>--- Page 2 ---\<newline>\<newline>World'' \<and>
      split_lines (full_text ed) = ['''', ''--- Page 1 ---'', '''', ''Hello'', '''', ''--- Page 2 ---'', '''', ''World''] \<and>
      total_characters ed = 45"
    by (auto simp: sep)
  from full_text_assembly [OF r, of "example_state ''/docs/a.pdf'' False"] f
  have b: "\<exists>ed s'. extract_text_from_pdf ?e (example_state ''/docs/a.pdf'' False) ''/docs/a.pdf'' = (Inr ed, s') \<and>
      full_text ed = ''Hello\<newline>\<newline>World'' \<and> total_characters ed = 12"
    by auto
  from r a b show ?thesis by blast
qed

section \<open>Consistency of the document\<close>

text \<open>
  Claim C10.  In every document returned by \<open>fetch\<close>, \<open>total_characters\<close> is the length of
  \<open>full_text\<close>, \<open>pages_with_text\<close> is the number of page entries, every page entry's
  \<open>character_count\<close> is the length of its text, the page numbers are strictly
  increasing, \<open>data_type\<close> is \<open>from_pdf\<close>, and \<open>timestamp\<close> equals
  \<open>extraction_timestamp\<close>.
\<close>

theorem fetch_document_invariants:
  assumes "fst (fetch e s) = Inr docs" and "d \<in> set docs"
  shows "m_total_characters (doc_metadata d) = length (c_full_text (doc_content d)) \<and>
         m_pages_with_text (doc_metadata d) = length (c_pages (doc_content d)) \<and>
         (\<forall>pd \<in> set (c_pages (doc_content d)). character_count pd = length (page_text pd)) \<and>
         sorted_wrt (<) (map page_number (c_pages (doc_content d))) \<and>
         m_data_type (doc_metadata d) = ''from_pdf'' \<and>
         m_timestamp (doc_metadata d) = m_extraction_timestamp (doc_metadata d)"
proof -
  from fetch_document [OF assms] obtain rpages where
    d: "create_json_structure e (pdf_file_path s)
          (extraction (include_page_numbers s) rpages) = Inr d"
    by blast
  note fl = create_json_structure_fields [OF d]
  have "\<forall>pd \<in> set (extracted_pages 0 rpages). character_count pd = length (page_text pd)"
    using extracted_pages_count [of 0 rpages] by blast
  moreover have "sorted_wrt (<) (map page_number (extracted_pages 0 rpages))"
    by (rule extracted_pages_sorted)
  ultimately show ?thesis
    using fl by (simp add: extraction_def)
qed

theorem fetch_document_invariants_witness:
  "\<exists>d. fst (fetch (example_env [PageText ''Hello'', PageText [], PageRaises PageError, PageText ''World''])
               (example_state ''/docs/a.pdf'' True)) = Inr [d] \<and>
       m_total_characters (doc_metadata d) = length (c_full_text (doc_content d)) \<and>
       m_pages_with_text (doc_metadata d) = length (c_pages (doc_content d)) \<and>
       (\<forall>pd \<in> set (c_pages (doc_content d)). character_count pd = length (page_text pd)) \<and>
       sorted_wrt (<) (map page_number (c_pages (doc_content d))) \<and>
       m_data_type (doc_metadata d) = ''from_pdf'' \<and>
       m_timestamp (doc_metadata d) = m_extraction_timestamp (doc_metadata d)"
proof -
  obtain d where d: "fst (fetch (example_env [PageText ''Hello'', PageText [], PageRaises PageError, PageText ''World''])
               (example_state ''/docs/a.pdf'' True)) = Inr [d]"
    using example_fetch_ok by blast
  from fetch_document_invariants [OF d, of d] d show ?thesis by simp
qed

section \<open>Texts inside the assembled text\<close>

lemma str_contains_sublist: "str_contains s sub = sublist sub s"
  by (induction s) (simp_all add: sublist_Cons_right)

lemma sublist_str_join: "t \<in> set parts \<Longrightarrow> sublist t (str_join sep parts)"
proof (induction sep parts rule: str_join.induct)
  case (3 sep x y ys)
  show ?case
  proof (cases "t = x")
    case True
    then show ?thesis by simp
  next
    case False
    with 3 have "sublist t (str_join sep (y # ys))" by simp
    then obtain ps ss where "str_join sep (y # ys) = ps @ t @ ss"
      by (auto simp: sublist_def)
    then have "str_join sep (x # y # ys) = (x @ sep @ ps) @ t @ ss" by simp
    then show ?thesis unfolding sublist_def by blast
  qed
qed simp_all

lemma assemble_full_text_contains:
  assumes "pd \<in> set pgs"
  shows "str_contains (assemble_full_text numbered pgs) (page_text pd)"
proof -
  have "page_text pd \<in> set (concat (map (\<lambda>pd. [page_separator (page_number pd), page_text pd]) pgs))"
    using assms by auto
  moreover have "page_text pd \<in> set (map page_text pgs)" using assms by simp
  ultimately show ?thesis
    by (simp add: assemble_full_text_def str_contains_sublist sublist_str_join)
qed

lemma extracted_pages_one_raises:
  assumes "\<forall>pg \<in> set (pre @ post). yields_text pg"
  shows "map page_text (extracted_pages 0 (pre @ [PageRaises x] @ post)) = map text_of (pre @ post)"
    and "map page_number (extracted_pages 0 (pre @ [PageRaises x] @ post)) =
           [1..<Suc (length pre)] @ [length pre + 2..<length pre + 2 + length post]"
proof -
  have a: "\<forall>pg \<in> set pre. yields_text pg" and b: "\<forall>pg \<in> set post. yields_text pg"
    using assms by auto
  have e: "extracted_pages 0 (pre @ [PageRaises x] @ post) =
           extracted_pages 0 pre @ extracted_pages (Suc (length pre)) post"
    by (simp add: extracted_pages_append)
  show "map page_text (extracted_pages 0 (pre @ [PageRaises x] @ post)) = map text_of (pre @ post)"
    unfolding e
    using extracted_pages_all [OF a, of 0] extracted_pages_all [OF b, of "Suc (length pre)"]
    by (simp del: upt_Suc)
  show "map page_number (extracted_pages 0 (pre @ [PageRaises x] @ post)) =
           [1..<Suc (length pre)] @ [length pre + 2..<length pre + 2 + length post]"
    unfolding e
    using extracted_pages_all [OF a, of 0] extracted_pages_all [OF b, of "Suc (length pre)"]
    by (simp del: upt_Suc)
qed

section \<open>A page that raises\<close>

text \<open>
  Claim C7.  When one page of an openable PDF raises during extraction and every other
  page gives a non-empty text, extraction still returns a result: its pages carry the
  texts of all the other pages, in order and under their own page numbers, each of these
  texts occurs in \<open>full_text\<close>, and fewer pages are extracted than the PDF has.  A
  document that \<open>fetch\<close> returns for this PDF has the same page texts and
  \<open>pages_with_text < total_pages\<close>.
\<close>

theorem one_page_raises:
  assumes r: "PdfReader e (pdf_file_path s) = Inr (Inr (pre @ [PageRaises x] @ post))"
    and y: "\<forall>pg \<in> set (pre @ post). yields_text pg"
  shows "(\<exists>ed s'. extract_text_from_pdf e s (pdf_file_path s) = (Inr ed, s') \<and>
            map page_text (pages ed) = map text_of (pre @ post) \<and>
            map page_number (pages ed) =
              [1..<Suc (length pre)] @ [length pre + 2..<length pre + 2 + length post] \<and>
            (\<forall>pg \<in> set (pre @ post). str_contains (full_text ed) (text_of pg)) \<and>
            total_pages ed = length pre + 1 + length post \<and>
            length (pages ed) < total_pages ed) \<and>
         (\<forall>docs d. fst (fetch e s) = Inr docs \<longrightarrow> d \<in> set docs \<longrightarrow>
            map page_text (c_pages (doc_content d)) = map text_of (pre @ post) \<and>
            (\<forall>pg \<in> set (pre @ post). str_contains (c_full_text (doc_content d)) (text_of pg)) \<and>
            m_pages_with_text (doc_metadata d) < m_total_pages (doc_metadata d))"
proof -
  let ?rp = "pre @ [PageRaises x] @ post"
  let ?ed = "extraction (include_page_numbers s) ?rp"
  note t = extracted_pages_one_raises [OF y, of x]
  have len: "length (extracted_pages 0 ?rp) = length pre + length post"
    using arg_cong [OF t(1), of length] by simp
  have c: "str_contains (full_text ?ed) (text_of pg)" if "pg \<in> set (pre @ post)" for pg
  proof -
    from that have "text_of pg \<in> set (map page_text (extracted_pages 0 ?rp))"
      unfolding t(1) by auto
    then obtain pd where "pd \<in> set (extracted_pages 0 ?rp)" "page_text pd = text_of pg"
      by auto
    then show ?thesis
      using assemble_full_text_contains [of pd "extracted_pages 0 ?rp" "include_page_numbers s"]
      by (simp add: extraction_def)
  qed
  have ed: "map page_text (pages ?ed) = map text_of (pre @ post)"
    "map page_number (pages ?ed) = [1..<Suc (length pre)] @ [length pre + 2..<length pre + 2 + length post]"
    "total_pages ?ed = length pre + 1 + length post" "length (pages ?ed) < total_pages ?ed"
    using t len by (simp_all add: extraction_def)
  have first: "\<exists>ed s'. extract_text_from_pdf e s (pdf_file_path s) = (Inr ed, s') \<and>
            map page_text (pages ed) = map text_of (pre @ post) \<and>
            map page_number (pages ed) =
              [1..<Suc (length pre)] @ [length pre + 2..<length pre + 2 + length post] \<and>
            (\<forall>pg \<in> set (pre @ post). str_contains (full_text ed) (text_of pg)) \<and>
            total_pages ed = length pre + 1 + length post \<and>
            length (pages ed) < total_pages ed"
    using extract_text_from_pdf_ok [OF r, of s] ed c by blast
  have second: "map page_text (c_pages (doc_content d)) = map text_of (pre @ post) \<and>
            (\<forall>pg \<in> set (pre @ post). str_contains (c_full_text (doc_content d)) (text_of pg)) \<and>
            m_pages_with_text (doc_metadata d) < m_total_pages (doc_metadata d)"
    if "fst (fetch e s) = Inr docs" "d \<in> set docs" for docs d
  proof -
    from fetch_document [OF that] r
    have d: "create_json_structure e (pdf_file_path s) ?ed = Inr d" by auto
    show ?thesis
      using create_json_structure_fields [OF d] ed c by simp
  qed
  from first second show ?thesis by blast
qed

theorem one_page_raises_witness:
  "\<exists>d. fst (fetch (example_env ([PageText ''Hello''] @ [PageRaises PageError] @ [PageText ''World'']))
               (example_state ''/docs/a.pdf'' True)) = Inr [d] \<and>
       map page_text (c_pages (doc_content d)) = [''Hello'', ''World''] \<and>
       str_contains (c_full_text (doc_content d)) ''Hello'' \<and>
       str_contains (c_full_text (doc_content d)) ''World'' \<and>
       m_pages_with_text (doc_metadata d) < m_total_pages (doc_metadata d)"
proof -
  let ?e = "example_env ([PageText ''Hello''] @ [PageRaises PageError] @ [PageText ''World''])"
  let ?s = "example_state ''/docs/a.pdf'' True"
  obtain d where d: "fst (fetch ?e ?s) = Inr [d]" using example_fetch_ok by blast
  have r: "PdfReader ?e (pdf_file_path ?s) =
             Inr (Inr ([PageText ''Hello''] @ [PageRaises PageError] @ [PageText ''World'']))"
    by (simp add: PdfReader_def example_env_def example_file_def example_state_def)
  have y: "\<forall>pg \<in> set ([PageText ''Hello''] @ [PageText ''World'']). yields_text pg"
    by (simp add: yields_text_def)
  from one_page_raises [OF r y] d show ?thesis
    by (auto simp: text_of_def)
qed

section \<open>A PDF without text\<close>

text \<open>
  Claim C9.  For a valid, parseable PDF none of whose pages gives a text (it has no page,
  or every page is skipped), \<open>fetch\<close> succeeds whenever the output can be written and no
  callback raises: it returns the one document, which has \<open>pages_with_text = 0\<close>, no page
  entry, an empty \<open>full_text\<close> and \<open>total_characters = 0\<close>.
\<close>

theorem fetch_no_text_succeeds:
  assumes v: "validate_config e s = (True, s1)"
    and f: "files e (pdf_file_path s) = Some f" "contents f \<noteq> []"
    and r: "PdfReader e (pdf_file_path s) = Inr (Inr rpages)"
    and none: "\<forall>pg \<in> set rpages. \<not> yields_text pg"
    and d: "create_json_structure e (pdf_file_path s)
              (extraction (include_page_numbers s) rpages) = Inr d"
    and mk: "dirname (output_file_path s1) = [] \<or> path_exists e (dirname (output_file_path s1))
             \<or> makedirs_error e (dirname (output_file_path s1)) = None"
    and w: "open_w_error e (output_file_path s1) = None" "json_dump_error e d = None"
    and cb: "call_callback (progress_callback e) = None" "call_callback (status_callback e) = None"
  shows "fst (fetch e s) = Inr [d] \<and>
         m_pages_with_text (doc_metadata d) = 0 \<and>
         c_pages (doc_content d) = [] \<and>
         c_full_text (doc_content d) = [] \<and>
         m_total_characters (doc_metadata d) = 0"
proof -
  have "fst (fetch_try e s) = Inr [d]"
    by (rule fetch_try_success [OF v f r d mk w cb])
  then have "fst (fetch e s) = Inr [d]" by (simp add: fetch_fst)
  moreover have "extracted_pages 0 rpages = []"
    by (rule extracted_pages_none [OF none])
  ultimately show ?thesis
    using create_json_structure_fields [OF d]
    by (simp add: extraction_def assemble_full_text_def)
qed

theorem fetch_no_text_succeeds_witness:
  "(\<exists>d. fst (fetch (example_env [PageText [], PageRaises PageError]) (example_state ''/docs/a.pdf'' True))
          = Inr [d] \<and>
        m_pages_with_text (doc_metadata d) = 0 \<and> c_pages (doc_content d) = [] \<and>
        c_full_text (doc_content d) = [] \<and> m_total_characters (doc_metadata d) = 0) \<and>
   (\<exists>d. fst (fetch (example_env []) (example_state ''/docs/a.pdf'' False)) = Inr [d] \<and>
        m_pages_with_text (doc_metadata d) = 0 \<and> c_pages (doc_content d) = [] \<and>
        c_full_text (doc_content d) = [] \<and> m_total_characters (doc_metadata d) = 0)"
proof -
  have run: "\<exists>d. fst (fetch (example_env rpages) (example_state ''/docs/a.pdf'' b)) = Inr [d] \<and>
        m_pages_with_text (doc_metadata d) = 0 \<and> c_pages (doc_content d) = [] \<and>
        c_full_text (doc_content d) = [] \<and> m_total_characters (doc_metadata d) = 0"
    if none: "\<forall>pg \<in> set rpages. \<not> yields_text pg" for rpages b
  proof -
    let ?e = "example_env rpages" and ?s = "example_state ''/docs/a.pdf'' b"
    have p: "pdf_file_path ?s = ''/docs/a.pdf''" "include_page_numbers ?s = b"
      by (simp_all add: example_state_def)
    have f: "files ?e (pdf_file_path ?s) = Some example_file" "contents example_file \<noteq> []"
      by (simp_all add: example_env_def example_file_def p)
    have r: "PdfReader ?e (pdf_file_path ?s) = Inr (Inr rpages)"
      by (simp add: PdfReader_def example_env_def example_file_def p)
    obtain d where "create_json_structure ?e ''/docs/a.pdf'' (extraction b rpages) = Inr d"
      using create_json_structure_Some [of ?e "''/docs/a.pdf''" example_file]
      by (auto simp: example_env_def)
    then have d: "create_json_structure ?e (pdf_file_path ?s)
                    (extraction (include_page_numbers ?s) rpages) = Inr d"
      by (simp add: p)
    have mk: "dirname (output_file_path (?s\<lparr>output_file_path := ''/docs/a.json''\<rparr>)) = [] \<or>
              path_exists ?e (dirname (output_file_path (?s\<lparr>output_file_path := ''/docs/a.json''\<rparr>))) \<or>
              makedirs_error ?e (dirname (output_file_path (?s\<lparr>output_file_path := ''/docs/a.json''\<rparr>))) = None"
      by (simp add: example_env_def)
    have w: "open_w_error ?e (output_file_path (?s\<lparr>output_file_path := ''/docs/a.json''\<rparr>)) = None"
      "json_dump_error ?e d = None"
      by (simp_all add: example_env_def)
    have cb: "call_callback (progress_callback ?e) = None" "call_callback (status_callback ?e) = None"
      by (simp_all add: example_env_def call_callback_def)
    from fetch_no_text_succeeds [OF ex_validate f r none d mk w cb] show ?thesis by blast
  qed
  have a: "\<forall>pg \<in> set [PageText [], PageRaises PageError]. \<not> yields_text pg"
    and b: "\<forall>pg \<in> set ([] :: page list). \<not> yields_text pg"
    by (simp_all add: yields_text_def)
  from run [OF a, of True] run [OF b, of False] show ?thesis by blast
qed

section \<open>Reading a file block by block\<close>

lemma drop_length_take: "drop (length (take n xs)) xs = drop n xs"
  by (simp add: min_def)

lemma chunks_concat: "0 < n \<Longrightarrow> concat (chunks n xs) = xs"
  by (induction n xs rule: chunks.induct) (subst chunks.simps, simp)

lemma chunks_lengths:
  "0 < n \<Longrightarrow> \<forall>b \<in> set (chunks n xs). b \<noteq> [] \<and> length b \<le> n"
  by (induction n xs rule: chunks.induct) (subst chunks.simps, auto)

lemma chunks_butlast:
  "0 < n \<Longrightarrow> \<forall>b \<in> set (butlast (chunks n xs)). length b = n"
proof (induction n xs rule: chunks.induct)
  case (1 n xs)
  show ?case
  proof (cases "xs = []")
    case True
    then show ?thesis by (subst chunks.simps) simp
  next
    case False
    show ?thesis
    proof (cases "chunks n (drop n xs) = []")
      case True
      with False 1(2) show ?thesis by (subst chunks.simps) simp
    next
      case ne: False
      then have "drop n xs \<noteq> []" by (subst (asm) chunks.simps) (simp split: if_splits)
      then have "length (take n xs) = n" by simp
      with False 1 ne show ?thesis by (subst chunks.simps) auto
    qed
  qed
qed

lemma read_blocks_ok:
  "no_fault h \<Longrightarrow> read_blocks h hs = Inr (hs @ chunks 4096 (drop (h_pos h) (h_data h)))"
proof (induction h hs rule: read_blocks.induct)
  case (1 h hs)
  let ?rest = "drop (h_pos h) (h_data h)"
  let ?block = "take 4096 ?rest"
  let ?h' = "h\<lparr>h_pos := h_pos h + length ?block\<rparr>"
  have rd: "f_read 4096 h = Inr (?block, ?h')"
    using 1(2) by (auto simp: f_read_def no_fault_def Let_def split: option.splits)
  show ?case
  proof (cases "?block = []")
    case True
    then have "?rest = []" by simp
    then have "chunks 4096 ?rest = []" by (subst chunks.simps) simp
    with rd True show ?thesis by (subst read_blocks.simps) simp
  next
    case False
    have nf: "no_fault ?h'"
      using 1(2) by (auto simp: no_fault_def split: option.splits)
    have ih: "read_blocks ?h' (sha_update hs ?block) =
                Inr (sha_update hs ?block @ chunks 4096 (drop (h_pos ?h') (h_data ?h')))"
      by (rule 1(1) [OF rd refl False nf])
    have dr: "drop (h_pos ?h') (h_data ?h') = drop 4096 ?rest"
      using drop_length_take [of 4096 ?rest] by (simp add: add.commute)
    have ch: "chunks 4096 ?rest = ?block # chunks 4096 (drop 4096 ?rest)"
      using False by (subst chunks.simps) auto
    have ih': "read_blocks ?h' (sha_update hs ?block) = Inr (hs @ chunks 4096 ?rest)"
      unfolding ih dr ch by (simp add: sha_update_def)
    show ?thesis
      using rd False ih' by (subst read_blocks.simps) simp
  qed
qed

lemma read_blocks_fault:
  "h_fault h = Some k \<Longrightarrow> h_pos h \<le> k \<Longrightarrow> k < length (h_data h) \<Longrightarrow>
   read_blocks h hs = Inl OSError"
proof (induction h hs rule: read_blocks.induct)
  case (1 h hs)
  let ?rest = "drop (h_pos h) (h_data h)"
  let ?block = "take 4096 ?rest"
  let ?h' = "h\<lparr>h_pos := h_pos h + length ?block\<rparr>"
  show ?case
  proof (cases "k < h_pos h + length ?block")
    case True
    with 1(2,3) have "f_read 4096 h = Inl OSError"
      by (simp add: f_read_def Let_def)
    then show ?thesis by (subst read_blocks.simps) simp
  next
    case False
    with 1(2) have rd: "f_read 4096 h = Inr (?block, ?h')"
      by (simp add: f_read_def Let_def)
    have ne: "?block \<noteq> []" using 1(3,4) by simp
    have "read_blocks ?h' (sha_update hs ?block) = Inl OSError"
      using 1(2,4) False by (intro 1(1) [OF rd refl ne]) simp_all
    with rd ne show ?thesis by (subst read_blocks.simps) simp
  qed
qed

lemma hex_digit_lower: "d < 16 \<Longrightarrow> hex_digit d \<in> set ''0123456789abcdef''"
  unfolding hex_digit_def by (intro nth_mem) simp

lemma hex_byte_lower: "is_lower_hex (hex_byte b)"
proof -
  have "unat b < 256" using unsigned_less [of b] by simp
  then have "unat b div 16 < 16" "unat b mod 16 < 16" by simp_all
  then show ?thesis
    using hex_digit_lower by (simp add: hex_byte_def is_lower_hex_def)
qed

lemma hexdigest_lower: "is_lower_hex (hexdigest e hs)"
  using hex_byte_lower by (auto simp: hexdigest_def is_lower_hex_def list_all_iff)

lemma hexdigest_length: "length (hexdigest e hs) = 2 * length (sha256_digest e (concat hs))"
  by (induction "sha256_digest e (concat hs)" arbitrary: hs)
     (simp_all add: hexdigest_def length_concat hex_byte_def comp_def sum_list_triv)

section \<open>The file hash\<close>

text \<open>
  Claim C6.  \<open>compute_file_hash\<close> feeds the file to the SHA-256 object in blocks of 4096
  bytes (the last one may be shorter, none is empty, and together they are the file's
  bytes), and returns the digest of the file's bytes in lower-case hexadecimal, two
  digits per digest byte.  When the path is not a file, when opening it raises, or
  when a read raises, it returns the empty string.
\<close>

theorem compute_file_hash_chunks:
  "(files e p = Some f \<and> open_error f = None \<and>
      (case read_fault f of None \<Rightarrow> True | Some k \<Rightarrow> length (contents f) \<le> k) \<longrightarrow>
      hash_file e p = Inr (chunks 4096 (contents f)) \<and>
      concat (chunks 4096 (contents f)) = contents f \<and>
      (\<forall>b \<in> set (chunks 4096 (contents f)). b \<noteq> [] \<and> length b \<le> 4096) \<and>
      (\<forall>b \<in> set (butlast (chunks 4096 (contents f))). length b = 4096) \<and>
      compute_file_hash e p = concat (map hex_byte (sha256_digest e (contents f))) \<and>
      is_lower_hex (compute_file_hash e p) \<and>
      length (compute_file_hash e p) = 2 * length (sha256_digest e (contents f)))
   \<and>
   (files e p = None \<or>
      (files e p = Some f \<and>
         (open_error f \<noteq> None \<or> (\<exists>k. read_fault f = Some k \<and> k < length (contents f)))) \<longrightarrow>
      compute_file_hash e p = [])"
proof (intro conjI impI)
  assume a: "files e p = Some f \<and> open_error f = None \<and>
      (case read_fault f of None \<Rightarrow> True | Some k \<Rightarrow> length (contents f) \<le> k)"
  let ?h = "\<lparr>h_data = contents f, h_pos = 0, h_fault = read_fault f\<rparr>"
  from a have op: "open_rb e p = Inr ?h" by (simp add: open_rb_def)
  from a have nf: "no_fault ?h" by (simp add: no_fault_def split: option.splits)
  show hf: "hash_file e p = Inr (chunks 4096 (contents f))"
    using read_blocks_ok [OF nf, of "[]"] op by (simp add: hash_file_def)
  show cc: "concat (chunks 4096 (contents f)) = contents f"
    by (rule chunks_concat) simp
  show "\<forall>b \<in> set (chunks 4096 (contents f)). b \<noteq> [] \<and> length b \<le> 4096"
    by (rule chunks_lengths) simp
  show "\<forall>b \<in> set (butlast (chunks 4096 (contents f))). length b = 4096"
    by (rule chunks_butlast) simp
  have eq: "compute_file_hash e p = hexdigest e (chunks 4096 (contents f))"
    using hf by (simp add: compute_file_hash_def)
  show "compute_file_hash e p = concat (map hex_byte (sha256_digest e (contents f)))"
    unfolding eq by (simp add: hexdigest_def cc)
  show "is_lower_hex (compute_file_hash e p)"
    unfolding eq by (rule hexdigest_lower)
  show "length (compute_file_hash e p) = 2 * length (sha256_digest e (contents f))"
    unfolding eq using hexdigest_length [of e "chunks 4096 (contents f)"] by (simp add: cc)
next
  assume b: "files e p = None \<or>
      (files e p = Some f \<and>
         (open_error f \<noteq> None \<or> (\<exists>k. read_fault f = Some k \<and> k < length (contents f))))"
  show "compute_file_hash e p = []"
  proof (cases "files e p")
    case None
    then show ?thesis by (simp add: compute_file_hash_def hash_file_def open_rb_def)
  next
    case (Some g)
    with b have g: "g = f" and c: "open_error f \<noteq> None \<or> (\<exists>k. read_fault f = Some k \<and> k < length (contents f))"
      by auto
    show ?thesis
    proof (cases "open_error f")
      case (Some x)
      with \<open>files e p = Some g\<close> g show ?thesis
        by (simp add: compute_file_hash_def hash_file_def open_rb_def)
    next
      case None
      with c obtain k where k: "read_fault f = Some k" "k < length (contents f)" by auto
      let ?h = "\<lparr>h_data = contents f, h_pos = 0, h_fault = read_fault f\<rparr>"
      have "read_blocks ?h [] = Inl OSError"
        using k by (intro read_blocks_fault [of _ k]) simp_all
      with None \<open>files e p = Some g\<close> g show ?thesis
        by (simp add: compute_file_hash_def hash_file_def open_rb_def)
    qed
  qed
qed

theorem compute_file_hash_chunks_witness:
  "compute_file_hash (example_env []) ''/docs/a.pdf'' = ''ab03'' \<and>
   hash_file (example_env []) ''/docs/a.pdf'' = Inr [ [0x25, 0x50, 0x44] ] \<and>
   compute_file_hash (example_env []) ''/docs/missing.pdf'' = [] \<and>
   compute_file_hash
     ((example_env [])\<lparr>files := [''/docs/a.pdf'' \<mapsto> example_file\<lparr>read_fault := Some 1\<rparr>]\<rparr>)
     ''/docs/a.pdf'' = []"
proof -
  let ?e = "example_env []"
  let ?g = "example_file\<lparr>read_fault := Some 1\<rparr>"
  let ?e' = "?e\<lparr>files := [''/docs/a.pdf'' \<mapsto> ?g]\<rparr>"
  have ok: "files ?e ''/docs/a.pdf'' = Some example_file \<and> open_error example_file = None \<and>
      (case read_fault example_file of None \<Rightarrow> True | Some k \<Rightarrow> length (contents example_file) \<le> k)"
    by (simp add: example_env_def example_file_def)
  have ch: "chunks 4096 (contents example_file) = [ [0x25, 0x50, 0x44] ]"
    by (simp add: example_file_def chunks.simps)
  have dg: "sha256_digest ?e (contents example_file) = [0xAB, 3]"
    by (simp add: example_env_def example_file_def)
  have hx: "hex_byte (0xAB :: byte) @ hex_byte 3 = ''ab03''"
    by (simp add: hex_byte_def hex_digit_def)
  have missing: "files ?e ''/docs/missing.pdf'' = None"
    by (simp add: example_env_def)
  have fault: "files ?e' ''/docs/a.pdf'' = Some ?g \<and>
         (open_error ?g \<noteq> None \<or> (\<exists>k. read_fault ?g = Some k \<and> k < length (contents ?g)))"
    by (simp add: example_env_def example_file_def)
  from compute_file_hash_chunks [of ?e "''/docs/a.pdf''" example_file] ok
  have 1: "compute_file_hash ?e ''/docs/a.pdf'' = ''ab03''"
    and 2: "hash_file ?e ''/docs/a.pdf'' = Inr [ [0x25, 0x50, 0x44] ]"
    by (simp_all add: ch dg hx)
  from compute_file_hash_chunks [of ?e "''/docs/missing.pdf''" example_file] missing
  have 3: "compute_file_hash ?e ''/docs/missing.pdf'' = []" by simp
  from compute_file_hash_chunks [of ?e' "''/docs/a.pdf''" ?g] fault
  have 4: "compute_file_hash ?e' ''/docs/a.pdf'' = []" by blast
  from 1 2 3 4 show ?thesis by simp
qed

section \<open>Base names and extensions\<close>














section \<open>Validation of the configuration\<close>



section \<open>Runs that return nothing\<close>

lemma fetch_validation_fails:
  "\<not> fst (validate_config e s) \<Longrightarrow> fetch e s = (Inr [], s)"
proof -
  assume a: "\<not> fst (validate_config e s)"
  obtain b s1 where v: "validate_config e s = (b, s1)" by (cases "validate_config e s")
  with a have b: "b = False" by simp
  with v have "s1 = s" using validate_config_False by blast
  with v b show ?thesis by (simp add: fetch_def fetch_try_def)
qed

lemma fetch_invalid_pdf:
  assumes "\<not> is_valid_pdf e (pdf_file_path s)"
  shows "fst (fetch e s) = Inr [] \<and> written (snd (fetch e s)) = written s \<and>
         made_dirs (snd (fetch e s)) = made_dirs s"
proof -
  obtain b s1 where v: "validate_config e s = (b, s1)" by (cases "validate_config e s")
  note k = validate_config_keeps [OF v]
  from assms k have "\<not> is_valid_pdf e (pdf_file_path s1)" by simp
  with v k show ?thesis by (cases b) (simp_all add: fetch_def fetch_try_def)
qed

section \<open>\<open>fetch\<close> returns a list\<close>

text \<open>
  Claim C5.  \<open>fetch\<close> never raises: it always returns a list, which is empty or holds one
  document; when it holds the document, validation has passed and the JSON file with this
  document has been written.  The list is empty whenever the body of \<open>fetch\<close> raises,
  whenever validation fails and whenever the PDF is invalid.  In particular, for a path
  that is not an existing file and for a path without the \<open>.pdf\<close> suffix \<open>fetch\<close>
  returns the empty list and changes nothing (no output file is created), and for a
  zero-byte file it returns the empty list and writes no file.
\<close>

theorem fetch_never_raises:
  "(\<exists>docs. fst (fetch e s) = Inr docs \<and>
       (docs = [] \<or>
        (\<exists>d s1. docs = [d] \<and> validate_config e s = (True, s1) \<and>
           written (snd (fetch e s)) (output_file_path s1) = Some (Json d)))) \<and>
   (\<forall>x. fst (fetch_try e s) = Inl x \<longrightarrow> fst (fetch e s) = Inr []) \<and>
   (\<not> fst (validate_config e s) \<longrightarrow> fetch e s = (Inr [], s)) \<and>
   (\<not> is_valid_pdf e (pdf_file_path s) \<longrightarrow>
      fst (fetch e s) = Inr [] \<and> written (snd (fetch e s)) = written s) \<and>
   (files e (pdf_file_path s) = None \<longrightarrow> fetch e s = (Inr [], s)) \<and>
   (\<not> endswith (lower (pdf_file_path s)) ''.pdf'' \<longrightarrow> fetch e s = (Inr [], s)) \<and>
   (\<forall>f. files e (pdf_file_path s) = Some f \<and> contents f = [] \<longrightarrow>
      fst (fetch e s) = Inr [] \<and> written (snd (fetch e s)) = written s)"
proof -
  obtain r s' where t: "fetch_try e s = (r, s')" by (cases "fetch_try e s")
  have 1: "\<exists>docs. fst (fetch e s) = Inr docs \<and>
       (docs = [] \<or>
        (\<exists>d s1. docs = [d] \<and> validate_config e s = (True, s1) \<and>
           written (snd (fetch e s)) (output_file_path s1) = Some (Json d)))"
  proof (cases r)
    case (Inl x)
    with t show ?thesis by (simp add: fetch_def)
  next
    case (Inr docs)
    with t have f: "fst (fetch e s) = Inr docs" by (simp add: fetch_def)
    show ?thesis
    proof (cases docs)
      case Nil
      with f show ?thesis by simp
    next
      case (Cons d ds)
      then have "d \<in> set docs" by simp
      from fetch_document [OF f this] f show ?thesis by blast
    qed
  qed
  have 2: "\<forall>x. fst (fetch_try e s) = Inl x \<longrightarrow> fst (fetch e s) = Inr []"
    by (simp add: fetch_fst)
  have 3: "\<not> fst (validate_config e s) \<longrightarrow> fetch e s = (Inr [], s)"
    using fetch_validation_fails by blast
  have 4: "\<not> is_valid_pdf e (pdf_file_path s) \<longrightarrow>
      fst (fetch e s) = Inr [] \<and> written (snd (fetch e s)) = written s"
    using fetch_invalid_pdf by blast
  have 5: "files e (pdf_file_path s) = None \<longrightarrow> fetch e s = (Inr [], s)"
  proof
    assume "files e (pdf_file_path s) = None"
    then have "\<not> fst (validate_config e s)" by (simp add: validate_config_def isfile_def)
    then show "fetch e s = (Inr [], s)" by (rule fetch_validation_fails)
  qed
  have 6: "\<not> endswith (lower (pdf_file_path s)) ''.pdf'' \<longrightarrow> fetch e s = (Inr [], s)"
  proof
    assume "\<not> endswith (lower (pdf_file_path s)) ''.pdf''"
    then have "\<not> fst (validate_config e s)" by (simp add: validate_config_def)
    then show "fetch e s = (Inr [], s)" by (rule fetch_validation_fails)
  qed
  have 7: "\<forall>f. files e (pdf_file_path s) = Some f \<and> contents f = [] \<longrightarrow>
      fst (fetch e s) = Inr [] \<and> written (snd (fetch e s)) = written s"
  proof (intro allI impI)
    fix f assume "files e (pdf_file_path s) = Some f \<and> contents f = []"
    then have "\<not> is_valid_pdf e (pdf_file_path s)" by (simp add: is_valid_pdf_def)
    then show "fst (fetch e s) = Inr [] \<and> written (snd (fetch e s)) = written s"
      using fetch_invalid_pdf by blast
  qed
  from 1 2 3 4 5 6 7 show ?thesis by (intro conjI)
qed

theorem fetch_never_raises_witness:
  "(\<exists>d. fst (fetch (example_env [PageText ''Hi'']) (example_state ''/docs/a.pdf'' True)) = Inr [d] \<and>
        written (snd (fetch (example_env [PageText ''Hi'']) (example_state ''/docs/a.pdf'' True)))
          ''/docs/a.json'' = Some (Json d)) \<and>
   fetch (example_env [PageText ''Hi'']) (example_state ''/docs/missing.pdf'' True)
     = (Inr [], example_state ''/docs/missing.pdf'' True) \<and>
   fetch ((example_env [PageText ''Hi''])\<lparr>files := [''/docs/a.txt'' \<mapsto> example_file]\<rparr>)
       (example_state ''/docs/a.txt'' True)
     = (Inr [], example_state ''/docs/a.txt'' True) \<and>
   fst (fetch ((example_env [PageText ''Hi''])
                 \<lparr>files := [''/docs/a.pdf'' \<mapsto> example_file\<lparr>contents := []\<rparr>]\<rparr>)
          (example_state ''/docs/a.pdf'' True)) = Inr [] \<and>
   written (snd (fetch ((example_env [PageText ''Hi''])
                 \<lparr>files := [''/docs/a.pdf'' \<mapsto> example_file\<lparr>contents := []\<rparr>]\<rparr>)
          (example_state ''/docs/a.pdf'' True))) = Map.empty \<and>
   fst (fetch_try ((example_env [])\<lparr>pdf_library := (\<lambda>f. Inr (Inl PdfReadError))\<rparr>)
          (example_state ''/docs/a.pdf'' True)) = Inl PdfReadError \<and>
   fst (fetch ((example_env [])\<lparr>pdf_library := (\<lambda>f. Inr (Inl PdfReadError))\<rparr>)
          (example_state ''/docs/a.pdf'' True)) = Inr []"
proof -
  let ?e = "example_env [PageText ''Hi'']"
  let ?s = "example_state ''/docs/a.pdf'' True"
  let ?ez = "?e\<lparr>files := [''/docs/a.pdf'' \<mapsto> example_file\<lparr>contents := []\<rparr>]\<rparr>"
  let ?ex = "?e\<lparr>files := [''/docs/a.txt'' \<mapsto> example_file]\<rparr>"
  let ?er = "(example_env [])\<lparr>pdf_library := (\<lambda>f. Inr (Inl PdfReadError))\<rparr>"
  have p: "pdf_file_path (example_state q True) = q" "written (example_state q True) = Map.empty" for q
    by (simp_all add: example_state_def)
  obtain d0 where d0: "fst (fetch ?e ?s) = Inr [d0]" using example_fetch_ok by blast
  from fetch_never_raises [of ?e ?s, THEN conjunct1] d0
  have a: "\<exists>d. fst (fetch ?e ?s) = Inr [d] \<and> written (snd (fetch ?e ?s)) ''/docs/a.json'' = Some (Json d)"
    by (auto simp: ex_validate)
  have "files ?e (pdf_file_path (example_state ''/docs/missing.pdf'' True)) = None"
    by (simp add: p example_env_def)
  with fetch_never_raises [of ?e "example_state ''/docs/missing.pdf'' True"]
  have b: "fetch ?e (example_state ''/docs/missing.pdf'' True) = (Inr [], example_state ''/docs/missing.pdf'' True)"
    by blast
  have "\<not> endswith (lower (pdf_file_path (example_state ''/docs/a.txt'' True))) ''.pdf''"
    by (simp add: p lower_def lower_char_def endswith_def)
  with fetch_never_raises [of ?ex "example_state ''/docs/a.txt'' True"]
  have c: "fetch ?ex (example_state ''/docs/a.txt'' True) = (Inr [], example_state ''/docs/a.txt'' True)"
    by blast
  have "files ?ez (pdf_file_path ?s) = Some (example_file\<lparr>contents := []\<rparr>) \<and>
        contents (example_file\<lparr>contents := []\<rparr>) = []"
    by (simp add: p example_env_def)
  with fetch_never_raises [of ?ez ?s]
  have z: "fst (fetch ?ez ?s) = Inr [] \<and> written (snd (fetch ?ez ?s)) = written ?s"
    by blast
  have v1: "validate_config ?er ?s = (True, ?s\<lparr>output_file_path := ''/docs/a.json''\<rparr>)"
    by (simp add: validate_config_def example_env_def example_state_def isfile_def lower_def
        lower_char_def endswith_def splitext_def basename_def dirname_def rfind_def path_join_def
        rstrip_slash_def Let_def)
  have fl: "files ?er ''/docs/a.pdf'' = Some example_file" "contents example_file \<noteq> []"
    by (simp_all add: example_env_def example_file_def)
  have rd: "PdfReader ?er ''/docs/a.pdf'' = Inr (Inl PdfReadError)"
    by (simp add: PdfReader_def example_env_def example_file_def)
  have valid: "is_valid_pdf ?er ''/docs/a.pdf''"
    by (simp add: is_valid_pdf_def PdfReader_def example_env_def example_file_def)
  have p1: "pdf_file_path (?s\<lparr>output_file_path := ''/docs/a.json''\<rparr>) = ''/docs/a.pdf''"
    by (simp add: example_state_def)
  have r1: "fst (fetch_try ?er ?s) = Inl PdfReadError"
    by (simp add: fetch_try_def v1 p1 valid rd)
  with fetch_never_raises [of ?er ?s]
  have x: "fst (fetch ?er ?s) = Inr []" by blast
  from a b c z r1 x show ?thesis by (simp add: p)
qed

section \<open>What the hash and the text depend on\<close>

lemma compute_file_hash_value:
  assumes "files e p = Some f" "open_error f = None"
  shows "compute_file_hash e p =
           (if read_succeeds f then concat (map hex_byte (sha256_digest e (contents f))) else [])"
proof (cases "read_succeeds f")
  case True
  let ?h = "\<lparr>h_data = contents f, h_pos = 0, h_fault = read_fault f\<rparr>"
  have "no_fault ?h" using True by (simp add: no_fault_def read_succeeds_def split: option.splits)
  from read_blocks_ok [OF this, of "[]"] assms
  have "hash_file e p = Inr (chunks 4096 (contents f))"
    by (simp add: hash_file_def open_rb_def)
  with True show ?thesis
    by (simp add: compute_file_hash_def hexdigest_def chunks_concat)
next
  case False
  then obtain k where k: "read_fault f = Some k" "k < length (contents f)"
    by (auto simp: read_succeeds_def split: option.splits)
  let ?h = "\<lparr>h_data = contents f, h_pos = 0, h_fault = read_fault f\<rparr>"
  have "read_blocks ?h [] = Inl OSError"
    using k by (intro read_blocks_fault [of _ k]) simp_all
  with assms False show ?thesis
    by (simp add: compute_file_hash_def hash_file_def open_rb_def)
qed

lemma PdfReader_opened:
  assumes "PdfReader e p = Inr r" "files e p = Some f"
  shows "open_error f = None \<and> pdf_library e f = Inr r"
  using assms by (auto simp: PdfReader_def split: option.splits)

lemma example_fetch_later:
  "\<exists>d. fst (fetch ((example_env rpages)\<lparr>now_iso := t\<rparr>) (example_state ''/docs/a.pdf'' b)) = Inr [d]"
proof -
  let ?e = "(example_env rpages)\<lparr>now_iso := t\<rparr>" and ?s = "example_state ''/docs/a.pdf'' b"
  have v: "validate_config ?e ?s = (True, ?s\<lparr>output_file_path := ''/docs/a.json''\<rparr>)"
    by (simp add: validate_config_def example_env_def example_state_def isfile_def lower_def
        lower_char_def endswith_def splitext_def basename_def dirname_def rfind_def path_join_def
        rstrip_slash_def Let_def)
  have p: "pdf_file_path ?s = ''/docs/a.pdf''" "include_page_numbers ?s = b"
    by (simp_all add: example_state_def)
  have f: "files ?e ''/docs/a.pdf'' = Some example_file" by (simp add: example_env_def)
  have c: "contents example_file \<noteq> []" by (simp add: example_file_def)
  have r: "PdfReader ?e ''/docs/a.pdf'' = Inr (Inr rpages)"
    by (simp add: PdfReader_def example_env_def example_file_def)
  obtain d where d: "create_json_structure ?e ''/docs/a.pdf'' (extraction b rpages) = Inr d"
    using create_json_structure_Some [OF f] by blast
  have io: "path_exists ?e (dirname ''/docs/a.json'')" "open_w_error ?e ''/docs/a.json'' = None"
    "json_dump_error ?e d = None" "call_callback (progress_callback ?e) = None"
    "call_callback (status_callback ?e) = None"
    by (simp_all add: example_env_def call_callback_def)
  have "fst (fetch_try ?e ?s) = Inr [d]"
    using f c r d io
    by (intro fetch_try_success [OF v, where f = example_file and rpages = rpages])
       (simp_all add: p)
  then show ?thesis by (auto simp: fetch_fst)
qed

lemma faulty_fetch_ok:
  "\<exists>d. fst (fetch (faulty_env rpages) (example_state ''/docs/a.pdf'' b)) = Inr [d]"
proof -
  let ?e = "faulty_env rpages" and ?s = "example_state ''/docs/a.pdf'' b"
  have v: "validate_config ?e ?s = (True, ?s\<lparr>output_file_path := ''/docs/a.json''\<rparr>)"
    by (simp add: validate_config_def faulty_env_def example_env_def example_state_def isfile_def
        lower_def lower_char_def endswith_def splitext_def basename_def dirname_def rfind_def
        path_join_def rstrip_slash_def Let_def)
  have p: "pdf_file_path ?s = ''/docs/a.pdf''" "include_page_numbers ?s = b"
    by (simp_all add: example_state_def)
  have f: "files ?e ''/docs/a.pdf'' = Some faulty_file"
    by (simp add: faulty_env_def example_env_def)
  have c: "contents faulty_file \<noteq> []" by (simp add: faulty_file_def example_file_def)
  have r: "PdfReader ?e ''/docs/a.pdf'' = Inr (Inr rpages)"
    by (simp add: PdfReader_def faulty_env_def faulty_file_def example_env_def example_file_def)
  obtain d where d: "create_json_structure ?e ''/docs/a.pdf'' (extraction b rpages) = Inr d"
    using create_json_structure_Some [OF f] by blast
  have io: "path_exists ?e (dirname ''/docs/a.json'')" "open_w_error ?e ''/docs/a.json'' = None"
    "json_dump_error ?e d = None" "call_callback (progress_callback ?e) = None"
    "call_callback (status_callback ?e) = None"
    by (simp_all add: faulty_env_def example_env_def call_callback_def)
  have "fst (fetch_try ?e ?s) = Inr [d]"
    using f c r d io
    by (intro fetch_try_success [OF v, where f = faulty_file and rpages = rpages])
       (simp_all add: p)
  then show ?thesis by (auto simp: fetch_fst)
qed

lemma fetched_hashes_document:
  assumes "fst (fetch e s) = Inr [d]"
  shows "fetched_hashes e s = [compute_file_hash e (pdf_file_path s)]"
proof -
  from fetch_document [OF assms, of d] obtain rpages where
    "create_json_structure e (pdf_file_path s) (extraction (include_page_numbers s) rpages) = Inr d"
    by auto
  from create_json_structure_fields(8) [OF this] assms show ?thesis
    by (simp add: fetched_hashes_def)
qed

lemma faulty_fetched_texts:
  "fetched_texts (faulty_env ps) (example_state ''/docs/a.pdf'' b)
     = [assemble_full_text b (extracted_pages 0 ps)]"
proof -
  let ?e = "faulty_env ps" and ?s = "example_state ''/docs/a.pdf'' b"
  obtain d where d: "fst (fetch ?e ?s) = Inr [d]" using faulty_fetch_ok by blast
  have r: "PdfReader ?e (pdf_file_path ?s) = Inr (Inr ps)"
    by (simp add: PdfReader_def faulty_env_def faulty_file_def example_env_def example_file_def
        example_state_def)
  from fetch_document [OF d, of d] r
  have "create_json_structure ?e (pdf_file_path ?s) (extraction (include_page_numbers ?s) ps) = Inr d"
    by auto
  from create_json_structure_fields(4) [OF this]
  have "c_full_text (doc_content d) = assemble_full_text b (extracted_pages 0 ps)"
    by (simp add: extraction_def example_state_def)
  with d show ?thesis by (simp add: fetched_texts_def)
qed

lemma example_fetched_texts:
  "fetched_texts (example_env ps) (example_state ''/docs/a.pdf'' b)
     = [assemble_full_text b (extracted_pages 0 ps)]"
proof -
  let ?e = "example_env ps" and ?s = "example_state ''/docs/a.pdf'' b"
  obtain d where d: "fst (fetch ?e ?s) = Inr [d]" using example_fetch_ok by blast
  have r: "PdfReader ?e (pdf_file_path ?s) = Inr (Inr ps)"
    by (simp add: PdfReader_def example_env_def example_file_def example_state_def)
  from fetch_document [OF d, of d] r
  have "create_json_structure ?e (pdf_file_path ?s) (extraction (include_page_numbers ?s) ps) = Inr d"
    by auto
  from create_json_structure_fields(4) [OF this]
  have "c_full_text (doc_content d) = assemble_full_text b (extracted_pages 0 ps)"
    by (simp add: extraction_def example_state_def)
  with d show ?thesis by (simp add: fetched_texts_def)
qed

section \<open>Converting the same file twice\<close>

text \<open>
  Claim C8 says that two conversions of the same bytes with the same setting give the
  same \<open>full_text\<close> and the same \<open>pdf_file_hash\<close>, the hash being a function of the
  bytes alone.  The hash is not: \<open>compute_file_hash\<close> gives the empty string when a read
  raises, and the document is returned all the same.  Two files with the same bytes, both
  parsed into the one page \<open>Hello\<close>, are converted to the same text, yet to the hashes
  \<open>ab03\<close> and the empty string, because reading the second one fails while hashing.
\<close>

theorem fetch_idempotent_counterexample:
  "contents faulty_file = contents example_file \<and>
   pdf_library (faulty_env [PageText ''Hello'']) faulty_file
     = pdf_library (example_env [PageText ''Hello'']) example_file \<and>
   sha256_digest (faulty_env [PageText ''Hello'']) = sha256_digest (example_env [PageText ''Hello'']) \<and>
   fetched_texts (example_env [PageText ''Hello'']) (example_state ''/docs/a.pdf'' True)
     = [''\<newline>--- Page 1 ---\<newline>\<newline>Hello''] \<and>
   fetched_texts (faulty_env [PageText ''Hello'']) (example_state ''/docs/a.pdf'' True)
     = [''\<newline>--- Page 1 ---\<newline>\<newline>Hello''] \<and>
   fetched_hashes (example_env [PageText ''Hello'']) (example_state ''/docs/a.pdf'' True)
     = [''ab03''] \<and>
   fetched_hashes (faulty_env [PageText ''Hello'']) (example_state ''/docs/a.pdf'' True)
     = [ [] ] \<and>
   ''ab03'' \<noteq> []"
proof -
  let ?ps = "[PageText ''Hello'']"
  let ?s = "example_state ''/docs/a.pdf'' True"
  have p: "pdf_file_path ?s = ''/docs/a.pdf''" by (simp add: example_state_def)
  obtain da where da: "fst (fetch (example_env ?ps) ?s) = Inr [da]"
    using example_fetch_ok by blast
  obtain db where db: "fst (fetch (faulty_env ?ps) ?s) = Inr [db]"
    using faulty_fetch_ok by blast
  have fa: "files (example_env ?ps) ''/docs/a.pdf'' = Some example_file"
    "open_error example_file = None" "read_succeeds example_file"
    by (simp_all add: example_env_def example_file_def read_succeeds_def)
  have fb: "files (faulty_env ?ps) ''/docs/a.pdf'' = Some faulty_file"
    "open_error faulty_file = None" "\<not> read_succeeds faulty_file"
    by (simp_all add: faulty_env_def faulty_file_def example_env_def example_file_def
        read_succeeds_def)
  have hx: "concat (map hex_byte (sha256_digest (example_env ?ps) (contents example_file))) = ''ab03''"
    by (simp add: example_env_def example_file_def hex_byte_def hex_digit_def)
  have ha: "fetched_hashes (example_env ?ps) ?s = [''ab03'']"
    using fetched_hashes_document [OF da] compute_file_hash_value [OF fa(1,2)] fa(3) hx
    by (simp add: p)
  have hb: "fetched_hashes (faulty_env ?ps) ?s = [ [] ]"
    using fetched_hashes_document [OF db] compute_file_hash_value [OF fb(1,2)] fb(3)
    by (simp add: p)
  have sep: "page_separator (Suc 0) = ''\<newline>--- Page 1 ---\<newline>''"
    by (simp add: page_separator_def str_nat.simps digit_char_def)
  have ta: "fetched_texts (example_env ?ps) ?s = [''\<newline>--- Page 1 ---\<newline>\<newline>Hello'']"
    by (simp add: example_fetched_texts assemble_full_text_def sep)
  have tb: "fetched_texts (faulty_env ?ps) ?s = [''\<newline>--- Page 1 ---\<newline>\<newline>Hello'']"
    by (simp add: faulty_fetched_texts assemble_full_text_def sep)
  have same: "contents faulty_file = contents example_file"
    "pdf_library (faulty_env ?ps) faulty_file = pdf_library (example_env ?ps) example_file"
    "sha256_digest (faulty_env ?ps) = sha256_digest (example_env ?ps)"
    by (simp_all add: faulty_env_def faulty_file_def example_env_def)
  from same ta tb ha hb show ?thesis by simp
qed

text \<open>
  Claim C8, amended.  Two conversions of files with the same bytes, which the PDF library
  parses alike, with the same \<open>include_page_numbers\<close> setting, give documents with the
  same \<open>full_text\<close> and the same pages, whatever the paths, the output paths, the clock
  and the progress counters are.  The \<open>pdf_file_hash\<close> of either document is the
  hexadecimal digest of the bytes when the hashing read of that file succeeds, and the
  empty string when it fails; so the two hashes are equal whenever the read succeeds in
  both conversions or fails in both.
\<close>

theorem fetch_idempotent:
  assumes f: "files e1 (pdf_file_path s1) = Some f1" "files e2 (pdf_file_path s2) = Some f2"
    and same: "contents f1 = contents f2"
    and lib: "pdf_library e1 f1 = pdf_library e2 f2" "sha256_digest e1 = sha256_digest e2"
    and inc: "include_page_numbers s1 = include_page_numbers s2"
    and r1: "fst (fetch e1 s1) = Inr docs1" "d1 \<in> set docs1"
    and r2: "fst (fetch e2 s2) = Inr docs2" "d2 \<in> set docs2"
  shows "c_full_text (doc_content d1) = c_full_text (doc_content d2) \<and>
         c_pages (doc_content d1) = c_pages (doc_content d2) \<and>
         m_pdf_file_hash (doc_metadata d1) =
           (if read_succeeds f1 then concat (map hex_byte (sha256_digest e1 (contents f1))) else []) \<and>
         m_pdf_file_hash (doc_metadata d2) =
           (if read_succeeds f2 then concat (map hex_byte (sha256_digest e1 (contents f1))) else []) \<and>
         (read_succeeds f1 = read_succeeds f2 \<longrightarrow>
            m_pdf_file_hash (doc_metadata d1) = m_pdf_file_hash (doc_metadata d2))"
proof -
  from fetch_document [OF r1] obtain rp1 where
    a: "PdfReader e1 (pdf_file_path s1) = Inr (Inr rp1)"
       "create_json_structure e1 (pdf_file_path s1) (extraction (include_page_numbers s1) rp1) = Inr d1"
    by blast
  from fetch_document [OF r2] obtain rp2 where
    b: "PdfReader e2 (pdf_file_path s2) = Inr (Inr rp2)"
       "create_json_structure e2 (pdf_file_path s2) (extraction (include_page_numbers s2) rp2) = Inr d2"
    by blast
  note oa = PdfReader_opened [OF a(1) f(1)]
  note ob = PdfReader_opened [OF b(1) f(2)]
  from oa ob lib(1) have rp: "rp1 = rp2" by simp
  note fa = create_json_structure_fields [OF a(2)]
  note fb = create_json_structure_fields [OF b(2)]
  have ha: "m_pdf_file_hash (doc_metadata d1) =
           (if read_succeeds f1 then concat (map hex_byte (sha256_digest e1 (contents f1))) else [])"
    using compute_file_hash_value [OF f(1)] oa fa(8) by simp
  have hb: "m_pdf_file_hash (doc_metadata d2) =
           (if read_succeeds f2 then concat (map hex_byte (sha256_digest e1 (contents f1))) else [])"
    using compute_file_hash_value [OF f(2)] ob fb(8) same lib(2) by simp
  have ft: "c_full_text (doc_content d1) = c_full_text (doc_content d2)"
    unfolding fa(4) fb(4) rp inc ..
  have pg: "c_pages (doc_content d1) = c_pages (doc_content d2)"
    unfolding fa(5) fb(5) rp inc ..
  have eq: "read_succeeds f1 = read_succeeds f2 \<longrightarrow>
            m_pdf_file_hash (doc_metadata d1) = m_pdf_file_hash (doc_metadata d2)"
    unfolding ha hb by simp
  from ft pg ha hb eq show ?thesis by (intro conjI)
qed

theorem fetch_idempotent_witness:
  "(\<exists>d1 d2.
      fst (fetch (example_env [PageText ''Hello'', PageText ''World''])
             (example_state ''/docs/a.pdf'' True)) = Inr [d1] \<and>
      fst (fetch ((example_env [PageText ''Hello'', PageText ''World''])\<lparr>now_iso := ''2030-01-01T00:00:00''\<rparr>)
             (example_state ''/docs/a.pdf'' True)) = Inr [d2] \<and>
      c_full_text (doc_content d1) = c_full_text (doc_content d2) \<and>
      m_pdf_file_hash (doc_metadata d1) = m_pdf_file_hash (doc_metadata d2) \<and>
      m_pdf_file_hash (doc_metadata d1) = ''ab03'') \<and>
   (\<exists>d1 d2.
      fst (fetch (example_env [PageText ''Hello'', PageText ''World''])
             (example_state ''/docs/a.pdf'' True)) = Inr [d1] \<and>
      fst (fetch (faulty_env [PageText ''Hello'', PageText ''World''])
             (example_state ''/docs/a.pdf'' True)) = Inr [d2] \<and>
      c_full_text (doc_content d1) = c_full_text (doc_content d2) \<and>
      m_pdf_file_hash (doc_metadata d1) = ''ab03'' \<and>
      m_pdf_file_hash (doc_metadata d2) = [])"
proof -
  let ?ps = "[PageText ''Hello'', PageText ''World'']"
  let ?ea = "example_env ?ps"
  let ?eb = "?ea\<lparr>now_iso := ''2030-01-01T00:00:00''\<rparr>"
  let ?ec = "faulty_env ?ps"
  let ?s = "example_state ''/docs/a.pdf'' True"
  obtain d1 where d1: "fst (fetch ?ea ?s) = Inr [d1]" using example_fetch_ok by blast
  obtain d2 where d2: "fst (fetch ?eb ?s) = Inr [d2]" using example_fetch_later by blast
  obtain d3 where d3: "fst (fetch ?ec ?s) = Inr [d3]" using faulty_fetch_ok by blast
  have f: "files ?ea (pdf_file_path ?s) = Some example_file"
    "files ?eb (pdf_file_path ?s) = Some example_file"
    "files ?ec (pdf_file_path ?s) = Some faulty_file"
    by (simp_all add: faulty_env_def example_env_def example_state_def)
  have lib: "pdf_library ?ea example_file = pdf_library ?eb example_file"
    "sha256_digest ?ea = sha256_digest ?eb"
    "pdf_library ?ea example_file = pdf_library ?ec faulty_file"
    "sha256_digest ?ea = sha256_digest ?ec"
    "contents example_file = contents faulty_file"
    by (simp_all add: faulty_env_def faulty_file_def example_env_def)
  have rd: "read_succeeds example_file" "\<not> read_succeeds faulty_file"
    by (simp_all add: read_succeeds_def faulty_file_def example_file_def)
  have hx: "concat (map hex_byte (sha256_digest ?ea (contents example_file))) = ''ab03''"
    by (simp add: example_env_def example_file_def hex_byte_def hex_digit_def)
  from fetch_idempotent [OF f(1,2) refl lib(1,2) refl d1 _ d2, of d1 d2] rd hx
  have a: "c_full_text (doc_content d1) = c_full_text (doc_content d2) \<and>
      m_pdf_file_hash (doc_metadata d1) = m_pdf_file_hash (doc_metadata d2) \<and>
      m_pdf_file_hash (doc_metadata d1) = ''ab03''"
    by simp
  from fetch_idempotent [OF f(1,3) lib(5,3,4) refl d1 _ d3, of d1 d3] rd hx
  have b: "c_full_text (doc_content d1) = c_full_text (doc_content d3) \<and>
      m_pdf_file_hash (doc_metadata d1) = ''ab03'' \<and>
      m_pdf_file_hash (doc_metadata d3) = []"
    by simp
  from a b d1 d2 d3 show ?thesis by blast
qed

section \<open>Markers inside the assembled text\<close>

lemma sublist_split_char:
  assumes "c \<notin> set m" and "sublist m (a @ c # b)"
  shows "sublist m a \<or> sublist m b"
proof -
  from assms(2) consider "sublist m a" | "sublist m (c # b)"
    | xs1 xs2 where "m = xs1 @ xs2" "suffix xs1 a" "prefix xs2 (c # b)"
    unfolding sublist_append by blast
  then show ?thesis
  proof cases
    case 1
    then show ?thesis by simp
  next
    case 2
    then have "prefix m (c # b) \<or> sublist m b" by (simp add: sublist_Cons_right)
    then show ?thesis
    proof
      assume "prefix m (c # b)"
      with assms(1) have "m = []" by (cases m) auto
      then show ?thesis by simp
    next
      assume "sublist m b"
      then show ?thesis by simp
    qed
  next
    case 3
    from 3(1,3) assms(1) have "xs2 = []" by (cases xs2) auto
    with 3(1,2) have "suffix m a" by simp
    then have "sublist m a" by (rule suffix_imp_sublist)
    then show ?thesis by simp
  qed
qed

lemma sublist_str_join_nl:
  assumes "CHR 0x0A \<notin> set m" and "m \<noteq> []"
  shows "sublist m (str_join ''\<newline>\<newline>'' parts) \<longleftrightarrow> (\<exists>t \<in> set parts. sublist m t)"
proof
  assume "\<exists>t \<in> set parts. sublist m t"
  then obtain t where t: "t \<in> set parts" "sublist m t" by blast
  from sublist_str_join [OF t(1)] have "sublist t (str_join ''\<newline>\<newline>'' parts)" .
  with t(2) show "sublist m (str_join ''\<newline>\<newline>'' parts)"
    using sublist_order.order_trans by blast
next
  assume "sublist m (str_join ''\<newline>\<newline>'' parts)"
  then show "\<exists>t \<in> set parts. sublist m t"
  proof (induction "''\<newline>\<newline>''" parts rule: str_join.induct)
    case 1
    with assms(2) show ?case by simp
  next
    case (2 x)
    then show ?case by simp
  next
    case (3 x y ys)
    then have "sublist m (x @ CHR 0x0A # (CHR 0x0A # str_join ''\<newline>\<newline>'' (y # ys)))" by simp
    from sublist_split_char [OF assms(1) this]
    have "sublist m x \<or> sublist m (CHR 0x0A # str_join ''\<newline>\<newline>'' (y # ys))" .
    then show ?case
    proof
      assume "sublist m x"
      then show ?thesis by auto
    next
      assume "sublist m (CHR 0x0A # str_join ''\<newline>\<newline>'' (y # ys))"
      then have "sublist m ([] @ CHR 0x0A # str_join ''\<newline>\<newline>'' (y # ys))" by simp
      from sublist_split_char [OF assms(1) this] assms(2)
      have "sublist m (str_join ''\<newline>\<newline>'' (y # ys))" by auto
      with 3(1) show ?thesis by auto
    qed
  qed
qed

lemma separator_in_page_separator: "sublist (separator_line n) (page_separator n)"
  unfolding page_separator_line by (rule sublist_appendI)

lemma marker_in_numbered_text:
  assumes "pd \<in> set pgs"
  shows "str_contains (assemble_full_text True pgs) (separator_line (page_number pd))"
proof -
  have "page_separator (page_number pd) \<in>
          set (concat (map (\<lambda>pd. [page_separator (page_number pd), page_text pd]) pgs))"
    using assms by auto
  from sublist_str_join [OF this]
  have "sublist (page_separator (page_number pd)) (assemble_full_text True pgs)"
    by (simp add: assemble_full_text_def)
  with separator_in_page_separator [of "page_number pd"] show ?thesis
    unfolding str_contains_sublist using sublist_order.order_trans by blast
qed

lemma separator_line_1: "separator_line 1 = ''--- Page 1 ---''"
  by (simp add: separator_line_def str_nat.simps digit_char_def)

lemma example_fetched:
  "fetched_texts (example_env ps) (example_state ''/docs/a.pdf'' b)
     = [assemble_full_text b (extracted_pages 0 ps)] \<and>
   fetched_page_numbers (example_env ps) (example_state ''/docs/a.pdf'' b)
     = [map page_number (extracted_pages 0 ps)]"
proof -
  let ?e = "example_env ps" and ?s = "example_state ''/docs/a.pdf'' b"
  obtain d where d: "fst (fetch ?e ?s) = Inr [d]" using example_fetch_ok by blast
  have r: "PdfReader ?e (pdf_file_path ?s) = Inr (Inr ps)"
    by (simp add: PdfReader_def example_env_def example_file_def example_state_def)
  from fetch_document [OF d, of d] r
  have "create_json_structure ?e (pdf_file_path ?s) (extraction (include_page_numbers ?s) ps) = Inr d"
    by auto
  from create_json_structure_fields [OF this]
  have "c_full_text (doc_content d) = assemble_full_text b (extracted_pages 0 ps)"
    "c_pages (doc_content d) = extracted_pages 0 ps"
    by (simp_all add: extraction_def example_state_def)
  with d show ?thesis by (simp add: fetched_texts_def fetched_page_numbers_def)
qed

section \<open>The marker of page 1\<close>

text \<open>
  Claim C3 says that with \<open>include_page_numbers\<close> the text of a conversion that extracts
  at least one page contains \<open>--- Page 1 ---\<close>, and that without it the text never
  does.  Both halves fail.  A PDF whose first page gives no text and whose second page
  gives \<open>a\<close> is converted, with page numbers, to a text holding the marker of page 2
  only.  A PDF whose only page reads \<open>see --- Page 1 ---\<close> is converted, without page
  numbers, to that very text.
\<close>

theorem page_marker_counterexample:
  "include_page_numbers (example_state ''/docs/a.pdf'' True) \<and>
   \<not> include_page_numbers (example_state ''/docs/a.pdf'' False) \<and>
   fetched_page_numbers (example_env [PageText [], PageText ''a'']) (example_state ''/docs/a.pdf'' True)
     = [ [2] ] \<and>
   fetched_texts (example_env [PageText [], PageText ''a'']) (example_state ''/docs/a.pdf'' True)
     = [''\<newline>--- Page 2 ---\<newline>\<newline>a''] \<and>
   \<not> str_contains ''\<newline>--- Page 2 ---\<newline>\<newline>a'' ''--- Page 1 ---'' \<and>
   fetched_texts (example_env [PageText ''see --- Page 1 ---'']) (example_state ''/docs/a.pdf'' False)
     = [''see --- Page 1 ---''] \<and>
   str_contains ''see --- Page 1 ---'' ''--- Page 1 ---''"
proof -
  have s2: "page_separator (Suc (Suc 0)) = ''\<newline>--- Page 2 ---\<newline>''"
    by (simp add: page_separator_def str_nat.simps digit_char_def)
  have a: "fetched_page_numbers (example_env [PageText [], PageText ''a'']) (example_state ''/docs/a.pdf'' True)
     = [ [2] ]"
    "fetched_texts (example_env [PageText [], PageText ''a'']) (example_state ''/docs/a.pdf'' True)
     = [''\<newline>--- Page 2 ---\<newline>\<newline>a'']"
    by (simp_all add: example_fetched assemble_full_text_def s2)
  have b: "fetched_texts (example_env [PageText ''see --- Page 1 ---'']) (example_state ''/docs/a.pdf'' False)
     = [''see --- Page 1 ---'']"
    by (simp add: example_fetched assemble_full_text_def)
  have c: "\<not> str_contains ''\<newline>--- Page 2 ---\<newline>\<newline>a'' ''--- Page 1 ---''"
    by simp
  have d: "str_contains ''see --- Page 1 ---'' ''--- Page 1 ---''"
    by simp
  from a b c d show ?thesis by (simp add: example_state_def)
qed

text \<open>
  Claim C3, amended.  In a document returned by \<open>fetch\<close> with \<open>include_page_numbers\<close>,
  \<open>full_text\<close> contains the separator line of every extracted page under that page's own
  number, hence \<open>--- Page 1 ---\<close> whenever page 1 is among the extracted pages.  Without
  \<open>include_page_numbers\<close>, \<open>full_text\<close> contains \<open>--- Page 1 ---\<close> exactly when the text
  of some extracted page contains it.
\<close>

theorem page_marker:
  assumes "fst (fetch e s) = Inr docs" and "d \<in> set docs"
  shows "(include_page_numbers s \<longrightarrow>
            (\<forall>pd \<in> set (c_pages (doc_content d)).
               str_contains (c_full_text (doc_content d)) (separator_line (page_number pd))) \<and>
            ((\<exists>pd \<in> set (c_pages (doc_content d)). page_number pd = 1) \<longrightarrow>
               str_contains (c_full_text (doc_content d)) ''--- Page 1 ---'')) \<and>
         (\<not> include_page_numbers s \<longrightarrow>
            (str_contains (c_full_text (doc_content d)) ''--- Page 1 ---'' \<longleftrightarrow>
             (\<exists>pd \<in> set (c_pages (doc_content d)). str_contains (page_text pd) ''--- Page 1 ---'')))"
proof -
  from fetch_document [OF assms] obtain rpages where
    d: "create_json_structure e (pdf_file_path s)
          (extraction (include_page_numbers s) rpages) = Inr d"
    by blast
  let ?pgs = "extracted_pages 0 rpages"
  from create_json_structure_fields [OF d]
  have ft: "c_full_text (doc_content d) = assemble_full_text (include_page_numbers s) ?pgs"
    and pg: "c_pages (doc_content d) = ?pgs"
    by (simp_all add: extraction_def)
  have numbered: "\<forall>pd \<in> set ?pgs. str_contains (assemble_full_text True ?pgs) (separator_line (page_number pd))"
    using marker_in_numbered_text by blast
  then have one: "(\<exists>pd \<in> set ?pgs. page_number pd = 1) \<longrightarrow>
         str_contains (assemble_full_text True ?pgs) ''--- Page 1 ---''"
    using separator_line_1 by metis
  have nl: "CHR 0x0A \<notin> set ''--- Page 1 ---''" "''--- Page 1 ---'' \<noteq> []" by simp_all
  have plain: "str_contains (assemble_full_text False ?pgs) ''--- Page 1 ---'' \<longleftrightarrow>
         (\<exists>pd \<in> set ?pgs. str_contains (page_text pd) ''--- Page 1 ---'')"
    unfolding str_contains_sublist using sublist_str_join_nl [OF nl, of "map page_text ?pgs"]
    by (simp add: assemble_full_text_def)
  show ?thesis
    unfolding ft pg using numbered one plain by (cases "include_page_numbers s") simp_all
qed

theorem page_marker_witness:
  "\<exists>d1 d2.
     fst (fetch (example_env [PageText ''Hello'', PageText ''World''])
            (example_state ''/docs/a.pdf'' True)) = Inr [d1] \<and>
     str_contains (c_full_text (doc_content d1)) ''--- Page 1 ---'' \<and>
     fst (fetch (example_env [PageText ''Hello'', PageText ''World''])
            (example_state ''/docs/a.pdf'' False)) = Inr [d2] \<and>
     \<not> str_contains (c_full_text (doc_content d2)) ''--- Page 1 ---''"
proof -
  let ?e = "example_env [PageText ''Hello'', PageText ''World'']"
  let ?st = "example_state ''/docs/a.pdf'' True"
  let ?sf = "example_state ''/docs/a.pdf'' False"
  obtain d1 where d1: "fst (fetch ?e ?st) = Inr [d1]" using example_fetch_ok by blast
  obtain d2 where d2: "fst (fetch ?e ?sf) = Inr [d2]" using example_fetch_ok by blast
  have inc: "include_page_numbers ?st" "\<not> include_page_numbers ?sf"
    by (simp_all add: example_state_def)
  have r: "PdfReader ?e (pdf_file_path (example_state ''/docs/a.pdf'' b)) =
             Inr (Inr [PageText ''Hello'', PageText ''World''])" for b
    by (simp add: PdfReader_def example_env_def example_file_def example_state_def)
  have pg: "c_pages (doc_content d) = extracted_pages 0 [PageText ''Hello'', PageText ''World'']"
    if "fst (fetch ?e (example_state ''/docs/a.pdf'' b)) = Inr [d]" for d b
  proof -
    from fetch_document [OF that, of d] r [of b]
    have "create_json_structure ?e (pdf_file_path (example_state ''/docs/a.pdf'' b))
            (extraction (include_page_numbers (example_state ''/docs/a.pdf'' b))
               [PageText ''Hello'', PageText ''World'']) = Inr d"
      by auto
    from create_json_structure_fields(5) [OF this] show ?thesis by (simp add: extraction_def)
  qed
  from page_marker [OF d1, of d1] inc(1) pg [OF d1]
  have a: "str_contains (c_full_text (doc_content d1)) ''--- Page 1 ---''" by simp
  from page_marker [OF d2, of d2] inc(2) pg [OF d2]
  have b: "\<not> str_contains (c_full_text (doc_content d2)) ''--- Page 1 ---''" by simp
  from d1 d2 a b show ?thesis by blast
qed

end
